theory Spec2Isabelle
  imports Complex_Main "HOL-Library.Multiset" "HOL-Library.Sublist"
begin

section \<open>The game configuration contract (types.ts)\<close>

text \<open>
  JavaScript numbers are modelled as \<^typ>\<open>real\<close> where the source computes with
  coordinates, radii and the speed parameter, and as \<^typ>\<open>int\<close> or \<^typ>\<open>nat\<close> for the
  counters that only ever hold integers (scores, lives, moves, ids). Strings are byte lists.
\<close>

datatype GameType = clicker | catcher | memory

text \<open>The theme's field \<open>text\<close> is called \<open>text_color\<close> here.\<close>

record ThemeConfig =
  primary :: string
  secondary :: string
  background :: string
  text_color :: string
  accent :: string

record GameParameters =
  speed :: real
  difficulty :: real

record GameConfig =
  gameType :: GameType
  title :: string
  description :: string
  instructions :: string
  theme :: ThemeConfig
  assets :: "string list"
  parameters :: GameParameters

section \<open>Configuration generation (generateGameForMood)\<close>

text \<open>
  The remote call and \<open>JSON.parse\<close> are external. The call either throws or returns a
  response whose \<open>text\<close> may be undefined; \<open>JSON.parse\<close> either throws or yields a
  value, of any shape.
\<close>

datatype gen_error = ApiError | NoResponse | SyntaxError

datatype api_outcome = Threw | Responded "string option"

definition fallbackConfig :: GameConfig where
  "fallbackConfig =
     \<lparr> gameType = clicker,
       title = ''Mood Popper'',
       description = ''Pop the bubbles to clear your mind.'',
       instructions = ''Click the floating circles!'',
       theme = \<lparr> primary = ''#3B82F6'', secondary = ''#60A5FA'', background = ''#EFF6FF'',
                 text_color = ''#1E3A8A'', accent = ''#2563EB'' \<rparr>,
       assets =
         [ [CHR 0xE2, CHR 0x80, CHR 0x9A, CHR 0xC3, CHR 0xBA, CHR 0xC2, CHR 0xAE],
           [CHR 0xEF, CHR 0xA3, CHR 0xBF, CHR 0xC3, CHR 0xBC, CHR 0xC3, CHR 0xAD, CHR 0xC3, CHR 0x9F],
           [CHR 0xE2, CHR 0x80, CHR 0x9A, CHR 0xC3, CHR 0xB2, CHR 0xC3, CHR 0x85, CHR 0xC3, CHR 0x94,
            CHR 0xE2, CHR 0x88, CHR 0x8F, CHR 0xC3, CHR 0xA8],
           [CHR 0xEF, CHR 0xA3, CHR 0xBF, CHR 0xC3, CHR 0xBC, CHR 0xC3, CHR 0xAD, CHR 0xC3, CHR 0xB4],
           [CHR 0xE2, CHR 0x80, CHR 0x9A, CHR 0xE2, CHR 0x89, CHR 0xA0, CHR 0xC3, CHR 0xAA] ],
       parameters = \<lparr> speed = 5, difficulty = 5 \<rparr> \<rparr>"

text \<open>
  A value as \<open>JSON.parse\<close> returns it. An object is the list of its properties, looked up
  from the front.
\<close>

datatype json =
    JNull
  | JBool bool
  | JNumber real
  | JString string
  | JArray "json list"
  | JObject "(string \<times> json) list"

fun json_field :: "string \<Rightarrow> json \<Rightarrow> json option" where
  "json_field k (JObject kvs) = map_of kvs k"
| "json_field k v = None"

fun string_of_json :: "json \<Rightarrow> string option" where
  "string_of_json (JString s) = Some s"
| "string_of_json v = None"

fun number_of_json :: "json \<Rightarrow> real option" where
  "number_of_json (JNumber x) = Some x"
| "number_of_json v = None"

fun strings_of_json :: "json list \<Rightarrow> string list option" where
  "strings_of_json [] = Some []"
| "strings_of_json (v # vs) =
     (case string_of_json v of
        None \<Rightarrow> None
      | Some s \<Rightarrow> map_option ((#) s) (strings_of_json vs))"

fun string_array_of_json :: "json \<Rightarrow> string list option" where
  "string_array_of_json (JArray vs) = strings_of_json vs"
| "string_array_of_json v = None"

fun gameType_of_json :: "json \<Rightarrow> GameType option" where
  "gameType_of_json (JString s) =
     (if s = ''clicker'' then Some clicker
      else if s = ''catcher'' then Some catcher
      else if s = ''memory'' then Some memory
      else None)"
| "gameType_of_json v = None"

definition theme_of_json :: "json \<Rightarrow> ThemeConfig option" where
  "theme_of_json v =
     Option.bind (Option.bind (json_field ''primary'' v) string_of_json) (\<lambda>p.
     Option.bind (Option.bind (json_field ''secondary'' v) string_of_json) (\<lambda>s.
     Option.bind (Option.bind (json_field ''background'' v) string_of_json) (\<lambda>b.
     Option.bind (Option.bind (json_field ''text'' v) string_of_json) (\<lambda>t.
     Option.bind (Option.bind (json_field ''accent'' v) string_of_json) (\<lambda>a.
       Some \<lparr> primary = p, secondary = s, background = b, text_color = t, accent = a \<rparr>)))))"

definition parameters_of_json :: "json \<Rightarrow> GameParameters option" where
  "parameters_of_json v =
     Option.bind (Option.bind (json_field ''speed'' v) number_of_json) (\<lambda>s.
     Option.bind (Option.bind (json_field ''difficulty'' v) number_of_json) (\<lambda>d.
       Some \<lparr> speed = s, difficulty = d \<rparr>))"

text \<open>
  Whether a value has the shape that the interface \<open>GameConfig\<close> of types.ts describes, and
  the configuration it then is: every field is present and of its declared type.
\<close>

definition config_of_json :: "json \<Rightarrow> GameConfig option" where
  "config_of_json v =
     Option.bind (Option.bind (json_field ''gameType'' v) gameType_of_json) (\<lambda>g.
     Option.bind (Option.bind (json_field ''title'' v) string_of_json) (\<lambda>ti.
     Option.bind (Option.bind (json_field ''description'' v) string_of_json) (\<lambda>de.
     Option.bind (Option.bind (json_field ''instructions'' v) string_of_json) (\<lambda>ins.
     Option.bind (Option.bind (json_field ''theme'' v) theme_of_json) (\<lambda>th.
     Option.bind (Option.bind (json_field ''assets'' v) string_array_of_json) (\<lambda>as.
     Option.bind (Option.bind (json_field ''parameters'' v) parameters_of_json) (\<lambda>ps.
       Some \<lparr> gameType = g, title = ti, description = de, instructions = ins, theme = th,
              assets = as, parameters = ps \<rparr>)))))))"

text \<open>A configuration as the object that the code builds for it.\<close>

fun json_of_gameType :: "GameType \<Rightarrow> json" where
  "json_of_gameType clicker = JString ''clicker''"
| "json_of_gameType catcher = JString ''catcher''"
| "json_of_gameType memory = JString ''memory''"

definition json_of_config :: "GameConfig \<Rightarrow> json" where
  "json_of_config c =
     JObject
       [(''gameType'', json_of_gameType (gameType c)),
        (''title'', JString (title c)),
        (''description'', JString (description c)),
        (''instructions'', JString (instructions c)),
        (''theme'', JObject
           [(''primary'', JString (primary (theme c))),
            (''secondary'', JString (secondary (theme c))),
            (''background'', JString (background (theme c))),
            (''text'', JString (text_color (theme c))),
            (''accent'', JString (accent (theme c)))]),
        (''assets'', JArray (map JString (assets c))),
        (''parameters'', JObject
           [(''speed'', JNumber (speed (parameters c))),
            (''difficulty'', JNumber (difficulty (parameters c)))])]"

text \<open>
  The body of the \<open>try\<close> block: \<open>Inl\<close> is a thrown exception. The parsed value is
  returned as it is; \<open>as GameConfig\<close> is a cast that exists only for the compiler.
\<close>

definition tryGenerate ::
  "(string \<Rightarrow> api_outcome) \<Rightarrow> (string \<Rightarrow> json option) \<Rightarrow> string \<Rightarrow> gen_error + json"
where
  "tryGenerate generateContent JSON_parse mood =
     (case generateContent mood of
        Threw \<Rightarrow> Inl ApiError
      | Responded None \<Rightarrow> Inl NoResponse
      | Responded (Some txt) \<Rightarrow>
          (if txt = [] then Inl NoResponse
           else case JSON_parse txt of None \<Rightarrow> Inl SyntaxError | Some config \<Rightarrow> Inr config))"

text \<open>
  The whole function: the \<open>catch\<close> clause replaces every exception by the fallback.
  \<open>Inl\<close> would be a rejected promise.
\<close>

definition generateGameForMood ::
  "(string \<Rightarrow> api_outcome) \<Rightarrow> (string \<Rightarrow> json option) \<Rightarrow> string \<Rightarrow> gen_error + json"
where
  "generateGameForMood generateContent JSON_parse mood =
     (case tryGenerate generateContent JSON_parse mood of
        Inr config \<Rightarrow> Inr config
      | Inl err \<Rightarrow> Inr (json_of_config fallbackConfig))"

text \<open>
  An example of a response that parses: what \<open>JSON.parse\<close> yields on the texts \<open>42\<close>,
  \<open>null\<close> and \<open>{}\<close> (other texts are not described and stand for texts that do not parse).
\<close>

definition parse_example :: "string \<Rightarrow> json option" where
  "parse_example txt =
     (if txt = ''42'' then Some (JNumber 42)
      else if txt = ''null'' then Some JNull
      else if txt = ''{}'' then Some (JObject [])
      else None)"

section \<open>Spawn cadence\<close>

definition clicker_spawnRate :: "GameConfig \<Rightarrow> real" where
  "clicker_spawnRate config = max 200 (1000 - (speed (parameters config) * 80))"

definition catcher_spawnRate :: "GameConfig \<Rightarrow> real" where
  "catcher_spawnRate config = max 300 (1500 - (speed (parameters config) * 100))"


section \<open>Shared helpers for the canvas games\<close>

text \<open>\<open>array.splice(index, 1)\<close>: remove the element at \<open>index\<close>.\<close>

definition splice1 :: "nat \<Rightarrow> 'a list \<Rightarrow> 'a list" where
  "splice1 index xs = take index xs @ drop (Suc index) xs"

text \<open>
  \<open>config.assets[Math.floor(Math.random() * config.assets.length)]\<close> for a draw \<open>d\<close>;
  \<open>None\<close> is JavaScript's \<open>undefined\<close> (an empty asset list).
\<close>

definition pickAsset :: "GameConfig \<Rightarrow> real \<Rightarrow> string option" where
  "pickAsset config d =
     (let i = \<lfloor>d * real (length (assets config))\<rfloor>
      in if 0 \<le> i \<and> nat i < length (assets config) then Some (assets config ! nat i) else None)"

section \<open>Clicker mini-game\<close>

record entity =
  ent_id :: nat
  ent_x :: real
  ent_y :: real
  ent_r :: real
  ent_asset :: "string option"
  ent_life :: real
  ent_maxLife :: real

text \<open>
  The component's props (\<open>c_config\<close>), the mutable \<open>gameStateRef\<close>, the effect's local
  \<open>spawnId\<close>, the two pieces of React state, whether the countdown interval is still
  installed, and the scores passed to \<open>onGameOver\<close> so far.
\<close>

record clicker_state =
  c_config :: GameConfig
  c_entities :: "entity list"
  c_lastSpawn :: real
  c_isRunning :: bool
  c_score :: int
  c_spawnId :: nat
  c_shownScore :: int
  c_timeLeft :: int
  c_timerActive :: bool
  c_calls :: "int list"

definition clicker_initial :: "GameConfig \<Rightarrow> clicker_state" where
  "clicker_initial config =
     \<lparr> c_config = config, c_entities = [], c_lastSpawn = 0, c_isRunning = True, c_score = 0,
       c_spawnId = 0, c_shownScore = 0, c_timeLeft = 30, c_timerActive = True, c_calls = [] \<rparr>"

definition speedMultiplier :: "GameConfig \<Rightarrow> real" where
  "speedMultiplier config = speed (parameters config) / 5"

text \<open>The four \<open>Math.random()\<close> draws of one spawn, in evaluation order.\<close>

record clicker_draws =
  cd_radius :: real
  cd_x :: real
  cd_y :: real
  cd_asset :: real

definition clicker_spawn :: "real \<Rightarrow> real \<Rightarrow> clicker_draws \<Rightarrow> real \<Rightarrow> clicker_state \<Rightarrow> clicker_state" where
  "clicker_spawn width height draws time st =
     (let spawnRate = clicker_spawnRate (c_config st)
      in if time - c_lastSpawn st > spawnRate
         then (let radius = cd_radius draws * 30 + 30
               in st\<lparr> c_lastSpawn := time,
                      c_entities := c_entities st @
                        [\<lparr> ent_id = c_spawnId st,
                           ent_x = cd_x draws * (width - radius * 2) + radius,
                           ent_y = cd_y draws * (height - radius * 2) + radius,
                           ent_r = 0,
                           ent_asset = pickAsset (c_config st) (cd_asset draws),
                           ent_life = 100,
                           ent_maxLife = 100 \<rparr>],
                      c_spawnId := Suc (c_spawnId st) \<rparr>)
         else st)"

text \<open>The callback of the update \<open>forEach\<close>, up to the removal test.\<close>

definition grow_decay :: "real \<Rightarrow> entity \<Rightarrow> entity" where
  "grow_decay sm ent =
     (let ent1 = (if ent_r ent < 40 then ent\<lparr> ent_r := ent_r ent + 2 * sm \<rparr> else ent)
      in ent1\<lparr> ent_life := ent_life ent1 - 1 * sm \<rparr>)"

text \<open>
  \<open>entities.forEach((ent, index) => ...)\<close> with the \<open>splice(index, 1)\<close> inside it.
  \<open>forEach\<close> reads the length once (\<open>len\<close>), visits the indices \<open>k < len\<close> in
  order and skips an index that is no longer in the array.
\<close>

function update_forEach :: "real \<Rightarrow> nat \<Rightarrow> nat \<Rightarrow> entity list \<Rightarrow> entity list" where
  "update_forEach sm k len ents =
     (if k < len then
        (if k < length ents then
           (let ent = grow_decay sm (ents ! k);
                ents1 = ents[k := ent]
            in if ent_life ent \<le> 0
               then update_forEach sm (Suc k) len (splice1 k ents1)
               else update_forEach sm (Suc k) len ents1)
         else update_forEach sm (Suc k) len ents)
      else ents)"
  by pat_completeness auto
termination
  by (relation "measure (\<lambda>(sm, k, len, ents). len - k)") auto

declare update_forEach.simps [simp del]

definition clicker_render :: "real \<Rightarrow> real \<Rightarrow> clicker_draws \<Rightarrow> real \<Rightarrow> clicker_state \<Rightarrow> clicker_state" where
  "clicker_render width height draws time st =
     (if \<not> c_isRunning st then st
      else (let st1 = clicker_spawn width height draws time st
            in st1\<lparr> c_entities :=
                 update_forEach (speedMultiplier (c_config st1)) 0 (length (c_entities st1))
                   (c_entities st1) \<rparr>))"

text \<open>The countdown: one tick of the one-second interval, while it is installed.\<close>

definition clicker_tick :: "clicker_state \<Rightarrow> clicker_state" where
  "clicker_tick st =
     (if \<not> c_timerActive st then st
      else if c_timeLeft st \<le> 1
      then st\<lparr> c_isRunning := False, c_timerActive := False,
               c_calls := c_calls st @ [c_score st], c_timeLeft := 0 \<rparr>
      else st\<lparr> c_timeLeft := c_timeLeft st - 1 \<rparr>)"

text \<open>The geometric test of \<open>handleClick\<close> for a pointer at \<open>(x, y)\<close> on the canvas.\<close>

definition hit :: "real \<Rightarrow> real \<Rightarrow> entity \<Rightarrow> bool" where
  "hit x y ent = (sqrt ((x - ent_x ent) ^ 2 + (y - ent_y ent) ^ 2) < ent_r ent)"

function click_forEach :: "real \<Rightarrow> real \<Rightarrow> nat \<Rightarrow> nat \<Rightarrow> clicker_state \<Rightarrow> clicker_state" where
  "click_forEach x y k len st =
     (if k < len then
        (if k < length (c_entities st) then
           (if hit x y (c_entities st ! k)
            then click_forEach x y (Suc k) len
                   (st\<lparr> c_score := c_score st + 10,
                        c_shownScore := c_score st + 10,
                        c_entities := splice1 k (c_entities st) \<rparr>)
            else click_forEach x y (Suc k) len st)
         else click_forEach x y (Suc k) len st)
      else st)"
  by pat_completeness auto
termination
  by (relation "measure (\<lambda>(x, y, k, len, st). len - k)") auto

declare click_forEach.simps [simp del]

definition handleClick :: "real \<Rightarrow> real \<Rightarrow> clicker_state \<Rightarrow> clicker_state" where
  "handleClick x y st =
     (if \<not> c_isRunning st then st
      else click_forEach x y 0 (length (c_entities st)) st)"

datatype clicker_event =
    ClickerFrame real real clicker_draws real
  | Tap real real
  | Tick

fun clicker_step :: "clicker_state \<Rightarrow> clicker_event \<Rightarrow> clicker_state" where
  "clicker_step st (ClickerFrame width height draws time) = clicker_render width height draws time st"
| "clicker_step st (Tap x y) = handleClick x y st"
| "clicker_step st Tick = clicker_tick st"

definition clicker_run :: "clicker_state \<Rightarrow> clicker_event list \<Rightarrow> clicker_state" where
  "clicker_run = foldl clicker_step"

section \<open>Catcher mini-game\<close>

record item =
  it_id :: nat
  it_x :: real
  it_y :: real
  it_speed :: real
  it_asset :: "string option"

record catcher_state =
  k_config :: GameConfig
  k_playerX :: real
  k_items :: "item list"
  k_score :: int
  k_lives :: int
  k_isRunning :: bool
  k_lastSpawn :: real
  k_spawnId :: nat
  k_shownScore :: int
  k_shownLives :: int
  k_calls :: "int list"

text \<open>The state after mounting on a canvas of the given width (\<open>handleResize\<close> ran once).\<close>

definition catcher_initial :: "GameConfig \<Rightarrow> real \<Rightarrow> catcher_state" where
  "catcher_initial config width =
     \<lparr> k_config = config, k_playerX = width / 2, k_items = [], k_score = 0, k_lives = 5,
       k_isRunning = True, k_lastSpawn = 0, k_spawnId = 0, k_shownScore = 0, k_shownLives = 5,
       k_calls = [] \<rparr>"

record catcher_draws =
  kd_x :: real
  kd_speed :: real
  kd_asset :: real

definition constrainPlayer :: "real \<Rightarrow> catcher_state \<Rightarrow> catcher_state" where
  "constrainPlayer width st =
     (let playerW = 100;
          st1 = (if k_playerX st < playerW / 2 then st\<lparr> k_playerX := playerW / 2 \<rparr> else st)
      in if k_playerX st1 > width - playerW / 2 then st1\<lparr> k_playerX := width - playerW / 2 \<rparr> else st1)"

definition catcher_spawn :: "real \<Rightarrow> catcher_draws \<Rightarrow> real \<Rightarrow> catcher_state \<Rightarrow> catcher_state" where
  "catcher_spawn width draws time st =
     (let speedBase = speed (parameters (k_config st));
          spawnRate = catcher_spawnRate (k_config st)
      in if time - k_lastSpawn st > spawnRate
         then st\<lparr> k_lastSpawn := time,
                  k_items := k_items st @
                    [\<lparr> it_id = k_spawnId st,
                       it_x = kd_x draws * (width - 40) + 20,
                       it_y = - 50,
                       it_speed = kd_speed draws * 2 + (speedBase * 0.5),
                       it_asset = pickAsset (k_config st) (kd_asset draws) \<rparr>],
                  k_spawnId := Suc (k_spawnId st) \<rparr>
         else st)"

text \<open>
  One iteration of the update loop, for index \<open>i\<close>. The loop runs downwards and removes
  only the index it is at, so \<open>i\<close> is always inside the array (lemma
  \<open>catcher_loop_in_range\<close>); the guard only makes the function total.
\<close>

definition catcher_item :: "real \<Rightarrow> nat \<Rightarrow> catcher_state \<Rightarrow> catcher_state" where
  "catcher_item height i st =
     (if i < length (k_items st) then
        (let playerW = 100; playerH = 20; playerY = height - 50;
             old = k_items st ! i;
             item = old\<lparr> it_y := it_y old + it_speed old \<rparr>;
             st1 = st\<lparr> k_items := (k_items st)[i := item] \<rparr>
         in if it_y item > playerY \<and> it_y item < playerY + playerH + 30 \<and>
               it_x item > k_playerX st1 - playerW / 2 \<and> it_x item < k_playerX st1 + playerW / 2
            then st1\<lparr> k_score := k_score st1 + 1,
                      k_shownScore := k_score st1 + 1,
                      k_items := splice1 i (k_items st1) \<rparr>
            else if it_y item > height
            then (let st2 = st1\<lparr> k_items := splice1 i (k_items st1),
                                 k_lives := k_lives st1 - 1,
                                 k_shownLives := k_lives st1 - 1 \<rparr>
                  in if k_lives st2 \<le> 0
                     then st2\<lparr> k_isRunning := False, k_calls := k_calls st2 @ [k_score st2] \<rparr>
                     else st2)
            else st1)
      else st)"

text \<open>\<open>for (let i = items.length - 1; i >= 0; i--)\<close>: \<open>n\<close> iterations remain, the next at index \<open>n - 1\<close>.\<close>

fun catcher_loop :: "real \<Rightarrow> nat \<Rightarrow> catcher_state \<Rightarrow> catcher_state" where
  "catcher_loop height 0 st = st"
| "catcher_loop height (Suc i) st = catcher_loop height i (catcher_item height i st)"

definition catcher_render :: "real \<Rightarrow> real \<Rightarrow> catcher_draws \<Rightarrow> real \<Rightarrow> catcher_state \<Rightarrow> catcher_state" where
  "catcher_render width height draws time st =
     (if \<not> k_isRunning st then st
      else (let st1 = constrainPlayer width st;
                st2 = catcher_spawn width draws time st1
            in catcher_loop height (length (k_items st2)) st2))"

datatype catcher_event =
    CatcherFrame real real catcher_draws real
  | PointerMove real
  | Resize real

fun catcher_step :: "catcher_state \<Rightarrow> catcher_event \<Rightarrow> catcher_state" where
  "catcher_step st (CatcherFrame width height draws time) = catcher_render width height draws time st"
| "catcher_step st (PointerMove x) = st\<lparr> k_playerX := x \<rparr>"
| "catcher_step st (Resize width) = st\<lparr> k_playerX := width / 2 \<rparr>"

definition catcher_run :: "catcher_state \<Rightarrow> catcher_event list \<Rightarrow> catcher_state" where
  "catcher_run = foldl catcher_step"


section \<open>Memory mini-game\<close>

record card =
  card_id :: nat
  card_content :: string
  isFlipped :: bool
  isMatched :: bool

text \<open>
  \<open>.sort(() => Math.random() - 0.5)\<close>: the comparator ignores its arguments, so the
  result is some rearrangement of the array that only the random draws determine. The
  draws \<open>rs\<close> pick, one position after the other, which remaining element comes next;
  every rearrangement is the result of some draws (lemma \<open>sort_random_any_order\<close>).
\<close>

fun sort_random :: "nat list \<Rightarrow> 'a list \<Rightarrow> 'a list" where
  "sort_random rs [] = []"
| "sort_random [] xs = xs"
| "sort_random (r # rs) xs =
     (let i = r mod length xs in xs ! i # sort_random rs (splice1 i xs))"

definition buildDeck :: "nat list \<Rightarrow> GameConfig \<Rightarrow> card list" where
  "buildDeck rs config =
     (let selection = take 8 (assets config);
          shuffled = sort_random rs (selection @ selection)
      in map (\<lambda>(index, item).
                \<lparr> card_id = index, card_content = item, isFlipped = False, isMatched = False \<rparr>)
           (enumerate 0 shuffled))"

text \<open>A pending \<open>setTimeout\<close>: its delay in milliseconds and what its callback does.\<close>

datatype timeout_callback = FlipBack nat nat | ReportGameOver int

fun is_FlipBack :: "timeout_callback \<Rightarrow> bool" where
  "is_FlipBack (FlipBack first second) = True"
| "is_FlipBack (ReportGameOver finalScore) = False"

record memory_state =
  m_config :: GameConfig
  m_cards :: "card list"
  m_flippedIds :: "nat list"
  m_matches :: nat
  m_moves :: nat
  m_timers :: "(nat \<times> timeout_callback) list"
  m_calls :: "int list"

definition memory_initial :: "GameConfig \<Rightarrow> memory_state" where
  "memory_initial config =
     \<lparr> m_config = config, m_cards = [], m_flippedIds = [], m_matches = 0, m_moves = 0,
       m_timers = [], m_calls = [] \<rparr>"

text \<open>The "Game Over Check" effect; it runs after a render in which one of its dependencies changed.\<close>

definition gameOverCheck :: "memory_state \<Rightarrow> memory_state" where
  "gameOverCheck st =
     (if length (m_cards st) > 0 \<and> real (m_matches st) = real (length (m_cards st)) / 2
      then (let finalScore = max 0 (1000 - (int (m_moves st) * 20))
            in st\<lparr> m_timers := m_timers st @ [(1000, ReportGameOver finalScore)] \<rparr>)
      else st)"

text \<open>The cleanup that the "Check Match" effect returned on its previous run: \<open>clearTimeout(timer)\<close>.\<close>

definition clearFlipBack :: "memory_state \<Rightarrow> memory_state" where
  "clearFlipBack st = st\<lparr> m_timers := filter (\<lambda>(delay, cb). \<not> is_FlipBack cb) (m_timers st) \<rparr>"

text \<open>
  The "Check Match" effect, run after a render in which \<open>flippedIds\<close> or \<open>cards\<close> changed,
  together with the render that its own state updates cause: React applies them in one
  batch, and in that render \<open>moves\<close> has changed, so the "Game Over Check" effect runs.
  (After a match the "Check Match" effect runs once more, on an empty \<open>flippedIds\<close>, where
  it does nothing; after a mismatch its dependencies are unchanged and it does not run.)
\<close>

definition checkMatch :: "memory_state \<Rightarrow> memory_state" where
  "checkMatch st0 =
     (let st = clearFlipBack st0
      in if length (m_flippedIds st) = 2 then
           (let first = m_flippedIds st ! 0;
                second = m_flippedIds st ! 1;
                card1 = find (\<lambda>c. card_id c = first) (m_cards st);
                card2 = find (\<lambda>c. card_id c = second) (m_cards st);
                st1 = st\<lparr> m_moves := m_moves st + 1 \<rparr>
            in if (case (card1, card2) of
                     (Some c1, Some c2) \<Rightarrow> card_content c1 = card_content c2
                   | _ \<Rightarrow> False)
               then gameOverCheck
                      (st1\<lparr> m_cards := map (\<lambda>c. if card_id c = first \<or> card_id c = second
                                                 then c\<lparr> isMatched := True \<rparr> else c) (m_cards st1),
                            m_matches := m_matches st1 + 1,
                            m_flippedIds := [] \<rparr>)
               else gameOverCheck
                      (st1\<lparr> m_timers := m_timers st1 @ [(1000, FlipBack first second)] \<rparr>))
         else st)"

text \<open>Mounting: the first render with no cards, then the render with the deck that the "Initialize" effect set.\<close>

definition memory_mount :: "nat list \<Rightarrow> GameConfig \<Rightarrow> memory_state" where
  "memory_mount rs config =
     (let st0 = gameOverCheck (checkMatch (memory_initial config));
          st1 = st0\<lparr> m_cards := buildDeck rs config \<rparr>
      in gameOverCheck (checkMatch st1))"

definition handleCardClick :: "nat \<Rightarrow> memory_state \<Rightarrow> memory_state" where
  "handleCardClick ident st =
     (if length (m_flippedIds st) \<ge> 2 then st
      else if ident \<in> set (m_flippedIds st) then st
      else if (case find (\<lambda>c. card_id c = ident) (m_cards st) of
                 Some c \<Rightarrow> isMatched c | None \<Rightarrow> False) then st
      else checkMatch
             (st\<lparr> m_cards := map (\<lambda>c. if card_id c = ident then c\<lparr> isFlipped := True \<rparr> else c)
                                (m_cards st),
                  m_flippedIds := m_flippedIds st @ [ident] \<rparr>))"

fun runTimeout :: "timeout_callback \<Rightarrow> memory_state \<Rightarrow> memory_state" where
  "runTimeout (FlipBack first second) st =
     checkMatch
       (st\<lparr> m_cards := map (\<lambda>c. if card_id c = first \<or> card_id c = second
                                then c\<lparr> isFlipped := False \<rparr> else c) (m_cards st),
            m_flippedIds := [] \<rparr>)"
| "runTimeout (ReportGameOver finalScore) st = st\<lparr> m_calls := m_calls st @ [finalScore] \<rparr>"

text \<open>
  What can happen to a mounted game: the player clicks the button of a card, or one of the
  pending timeouts (the \<open>k\<close>-th) expires. Nothing is assumed about which expires first.
\<close>

datatype memory_event = CardClick nat | TimeoutFires nat

fun memory_step :: "memory_state \<Rightarrow> memory_event \<Rightarrow> memory_state" where
  "memory_step st (CardClick ident) = handleCardClick ident st"
| "memory_step st (TimeoutFires k) =
     (if k < length (m_timers st)
      then runTimeout (snd (m_timers st ! k)) (st\<lparr> m_timers := splice1 k (m_timers st) \<rparr>)
      else st)"

definition memory_run :: "memory_state \<Rightarrow> memory_event list \<Rightarrow> memory_state" where
  "memory_run = foldl memory_step"

text \<open>Buttons exist only for the cards of the deck, whose ids are their positions.\<close>

fun clickable :: "nat \<Rightarrow> memory_event \<Rightarrow> bool" where
  "clickable n (CardClick ident) = (ident < n)"
| "clickable n (TimeoutFires k) = True"

section \<open>Notions used to state and prove the properties\<close>

text \<open>
  Of the pending timeouts: the scores that the game-over ones will report, and the flip-back
  ones. Of the cards: the positions of those that are matched.
\<close>

fun report_score :: "nat \<times> timeout_callback \<Rightarrow> int list" where
  "report_score (delay, FlipBack first second) = []"
| "report_score (delay, ReportGameOver finalScore) = [finalScore]"

definition pending_reports :: "(nat \<times> timeout_callback) list \<Rightarrow> int list" where
  "pending_reports ts = concat (map report_score ts)"

definition pending_flipbacks :: "(nat \<times> timeout_callback) list \<Rightarrow> (nat \<times> timeout_callback) list" where
  "pending_flipbacks ts = filter (\<lambda>(delay, cb). is_FlipBack cb) ts"

definition matched_ids :: "card list \<Rightarrow> nat set" where
  "matched_ids cs = {i. i < length cs \<and> isMatched (cs ! i)}"

text \<open>
  What holds between any two events of a Memory session: card ids are positions, the flipped
  cards are distinct unmatched face-up cards of the deck, each match marked two cards, a
  flip-back timeout is pending exactly while two unequal cards are face-up, and a game-over
  report exists (pending or delivered) exactly when all cards of a non-empty deck are matched.
\<close>

definition memory_inv :: "memory_state \<Rightarrow> bool" where
  "memory_inv st \<longleftrightarrow>
     map card_id (m_cards st) = [0..<length (m_cards st)]
   \<and> distinct (m_flippedIds st)
   \<and> (\<forall>i \<in> set (m_flippedIds st). i < length (m_cards st) \<and> \<not> isMatched (m_cards st ! i)
          \<and> isFlipped (m_cards st ! i))
   \<and> card (matched_ids (m_cards st)) = 2 * m_matches st
   \<and> length (m_flippedIds st) \<le> 2
   \<and> pending_flipbacks (m_timers st) =
        (if length (m_flippedIds st) = 2
         then [(1000, FlipBack (m_flippedIds st ! 0) (m_flippedIds st ! 1))] else [])
   \<and> (length (m_flippedIds st) = 2 \<longrightarrow>
        card_content (m_cards st ! (m_flippedIds st ! 0)) \<noteq> card_content (m_cards st ! (m_flippedIds st ! 1)))
   \<and> (\<forall>t \<in> set (m_timers st). fst t = 1000)
   \<and> mset (pending_reports (m_timers st)) + mset (m_calls st) =
        (if m_cards st \<noteq> [] \<and> 2 * m_matches st = length (m_cards st)
         then {# max 0 (1000 - 20 * int (m_moves st)) #} else {#})"

text \<open>The two shapes of \<open>prev.map(c => ... ? { ...c, field: value } : c)\<close>.\<close>

definition setFlipped :: "(card \<Rightarrow> bool) \<Rightarrow> bool \<Rightarrow> card list \<Rightarrow> card list" where
  "setFlipped P b cs = map (\<lambda>c. if P c then c\<lparr> isFlipped := b \<rparr> else c) cs"

definition setMatched :: "(card \<Rightarrow> bool) \<Rightarrow> card list \<Rightarrow> card list" where
  "setMatched P cs = map (\<lambda>c. if P c then c\<lparr> isMatched := True \<rparr> else c) cs"

text \<open>
  A two-card evaluation happens when a click turns the second card of an attempt face-up;
  \<open>evaluations\<close> counts these clicks along a session.
\<close>

fun second_flip :: "memory_state \<Rightarrow> memory_event \<Rightarrow> bool" where
  "second_flip st (CardClick ident) =
     (length (m_flippedIds st) = 1 \<and> ident \<notin> set (m_flippedIds st) \<and>
      (case find (\<lambda>c. card_id c = ident) (m_cards st) of Some c \<Rightarrow> \<not> isMatched c | None \<Rightarrow> True))"
| "second_flip st (TimeoutFires k) = False"

fun evaluations :: "memory_state \<Rightarrow> memory_event list \<Rightarrow> nat" where
  "evaluations st [] = 0"
| "evaluations st (ev # evs) =
     (if second_flip st ev then 1 else 0) + evaluations (memory_step st ev) evs"

text \<open>Configurations with short or repetitive asset lists, used as examples.\<close>

definition dupConfig :: GameConfig where
  "dupConfig = fallbackConfig\<lparr> gameType := memory,
      assets := [''a'', ''a'', ''b'', ''c'', ''d'', ''e'', ''f'', ''g''] \<rparr>"

definition emptyConfig :: GameConfig where
  "emptyConfig = fallbackConfig\<lparr> gameType := memory, assets := [] \<rparr>"

definition pairConfig :: GameConfig where
  "pairConfig = fallbackConfig\<lparr> gameType := memory, assets := [''x''] \<rparr>"

definition twoPairConfig :: GameConfig where
  "twoPairConfig = fallbackConfig\<lparr> gameType := memory, assets := [''x'', ''y''] \<rparr>"

text \<open>
  What one pass of the click \<open>forEach\<close> leaves of the entities from the current index on:
  a target that is hit is removed, and the target that slides into its index is not
  visited in this pass.
\<close>

fun click_remaining :: "real \<Rightarrow> real \<Rightarrow> entity list \<Rightarrow> entity list" where
  "click_remaining x y [] = []"
| "click_remaining x y [e] = (if hit x y e then [] else [e])"
| "click_remaining x y (e # e' # es) =
     (if hit x y e then e' # click_remaining x y es else e # click_remaining x y (e' # es))"

text \<open>
  A Clicker session on a 660 by 660 canvas: three targets spawn at (100, 100), (300, 300) and
  (110, 100), and five more frames pass, so that the first and the third overlap.
\<close>

definition overlapConfig :: GameConfig where
  "overlapConfig = fallbackConfig"

definition overlapFrames :: "clicker_event list" where
  "overlapFrames =
     [ClickerFrame 660 660 \<lparr> cd_radius = 0, cd_x = 0, cd_y = 0, cd_asset = 0 \<rparr> 0,
      ClickerFrame 660 660 \<lparr> cd_radius = 0, cd_x = 7/60, cd_y = 7/60, cd_asset = 0 \<rparr> 601,
      ClickerFrame 660 660 \<lparr> cd_radius = 0, cd_x = 9/20, cd_y = 9/20, cd_asset = 0 \<rparr> 1202,
      ClickerFrame 660 660 \<lparr> cd_radius = 0, cd_x = 2/15, cd_y = 7/60, cd_asset = 0 \<rparr> 1803,
      ClickerFrame 660 660 \<lparr> cd_radius = 0, cd_x = 0, cd_y = 0, cd_asset = 0 \<rparr> 1820,
      ClickerFrame 660 660 \<lparr> cd_radius = 0, cd_x = 0, cd_y = 0, cd_asset = 0 \<rparr> 1837,
      ClickerFrame 660 660 \<lparr> cd_radius = 0, cd_x = 0, cd_y = 0, cd_asset = 0 \<rparr> 1854,
      ClickerFrame 660 660 \<lparr> cd_radius = 0, cd_x = 0, cd_y = 0, cd_asset = 0 \<rparr> 1871,
      ClickerFrame 660 660 \<lparr> cd_radius = 0, cd_x = 0, cd_y = 0, cd_asset = 0 \<rparr> 1888]"

text \<open>
  A Catcher session on a 600 by 500 canvas at speed 10: six items spawn, half a second apart,
  and fall for six more frames; then the window is made smaller, which leaves a canvas of
  height 1, and one more frame follows.
\<close>

definition shrinkConfig :: GameConfig where
  "shrinkConfig = fallbackConfig\<lparr> gameType := catcher, parameters := \<lparr> speed = 10, difficulty = 5 \<rparr> \<rparr>"

definition shrinkDraws :: catcher_draws where
  "shrinkDraws = \<lparr> kd_x = 0, kd_speed = 3/4, kd_asset = 0 \<rparr>"

definition spawnFrames :: "catcher_event list" where
  "spawnFrames =
     [CatcherFrame 600 500 shrinkDraws 0,
      CatcherFrame 600 500 shrinkDraws 501, CatcherFrame 600 500 shrinkDraws 1002,
      CatcherFrame 600 500 shrinkDraws 1503, CatcherFrame 600 500 shrinkDraws 2004,
      CatcherFrame 600 500 shrinkDraws 2505, CatcherFrame 600 500 shrinkDraws 3006]"

definition fallFrames :: "catcher_event list" where
  "fallFrames =
     [CatcherFrame 600 500 shrinkDraws 3022, CatcherFrame 600 500 shrinkDraws 3038,
      CatcherFrame 600 500 shrinkDraws 3054, CatcherFrame 600 500 shrinkDraws 3070,
      CatcherFrame 600 500 shrinkDraws 3086, CatcherFrame 600 500 shrinkDraws 3102]"

definition shrinkFrames :: "catcher_event list" where
  "shrinkFrames = spawnFrames @ fallFrames @ [Resize 600, CatcherFrame 600 1 shrinkDraws 3118]"

definition fallingItem :: "nat \<Rightarrow> real \<Rightarrow> item" where
  "fallingItem i y =
     \<lparr> it_id = i, it_x = 20, it_y = y, it_speed = 13 / 2, it_asset = pickAsset shrinkConfig 0 \<rparr>"

definition fallingState :: "item list \<Rightarrow> catcher_state" where
  "fallingState its =
     \<lparr> k_config = shrinkConfig, k_playerX = 300, k_items = its, k_score = 0, k_lives = 5,
       k_isRunning = True, k_lastSpawn = 3006, k_spawnId = 6, k_shownScore = 0, k_shownLives = 5,
       k_calls = [] \<rparr>"

text \<open>
  A Catcher state with one life left, three points, and two items that reach the bottom edge of
  a canvas of height 500 in the next frame, away from the paddle.
\<close>

definition lastLifeState :: catcher_state where
  "lastLifeState =
     \<lparr> k_config = shrinkConfig, k_playerX = 300,
       k_items =
         [\<lparr> it_id = 7, it_x = 20, it_y = 500, it_speed = 5, it_asset = pickAsset shrinkConfig 0 \<rparr>,
          \<lparr> it_id = 8, it_x = 500, it_y = 496, it_speed = 6, it_asset = pickAsset shrinkConfig 0 \<rparr>],
       k_score = 3, k_lives = 1, k_isRunning = True, k_lastSpawn = 9000, k_spawnId = 9,
       k_shownScore = 3, k_shownLives = 1, k_calls = [] \<rparr>"

text \<open>
  The arrays that the "Initialize" effect of the Memory game touches, as objects in a store:
  an address is a position in the list of arrays. \<open>slice\<close> and the spread literal allocate a
  new array; \<open>sort\<close> rearranges the array it is called on, in place.
\<close>

type_synonym array_store = "string list list"

definition store_slice :: "nat \<Rightarrow> nat \<Rightarrow> array_store \<Rightarrow> array_store \<times> nat" where
  "store_slice a n store = (store @ [take n (store ! a)], length store)"

definition store_spread2 :: "nat \<Rightarrow> nat \<Rightarrow> array_store \<Rightarrow> array_store \<times> nat" where
  "store_spread2 a b store = (store @ [store ! a @ store ! b], length store)"

definition store_sort :: "nat list \<Rightarrow> nat \<Rightarrow> array_store \<Rightarrow> array_store" where
  "store_sort rs a store = store[a := sort_random rs (store ! a)]"

definition initialize_store :: "nat list \<Rightarrow> nat \<Rightarrow> array_store \<Rightarrow> array_store \<times> nat" where
  "initialize_store rs assetsAddr store =
     (let (store1, selection) = store_slice assetsAddr 8 store;
          (store2, both) = store_spread2 selection selection store1
      in (store_sort rs both store2, both))"

text \<open>
  What holds between any two events of a Clicker session: the score is not negative, and as
  long as the countdown interval is installed nothing has been reported.
\<close>

definition clicker_inv :: "clicker_state \<Rightarrow> bool" where
  "clicker_inv st \<longleftrightarrow>
     0 \<le> c_score st \<and> length (c_calls st) \<le> 1 \<and> list_all (\<lambda>s. 0 \<le> s) (c_calls st)
   \<and> (c_timerActive st \<longrightarrow> c_calls st = [])"

section \<open>Properties\<close>

subsection \<open>Memory: every step keeps the invariant\<close>

lemma id_nth:
  "map card_id cs = [0..<length cs] \<Longrightarrow> i < length cs \<Longrightarrow> card_id (cs ! i) = i"
  by (metis add_0 length_map nth_map nth_upt)

lemma find_by_id:
  assumes "map card_id cs = [0..<length cs]" "i < length cs"
  shows "find (\<lambda>c. card_id c = i) cs = Some (cs ! i)"
proof -
  have "\<forall>j<i. card_id (cs ! j) \<noteq> i"
    using assms id_nth[OF assms(1)] by auto
  moreover have "card_id (cs ! i) = i" using assms by (rule id_nth)
  ultimately show ?thesis
    using assms(2) unfolding find_Some_iff by blast
qed

lemma gameOverCheck_cond:
  "(real (m_matches st) = real (length (m_cards st)) / 2) \<longleftrightarrow> (2 * m_matches st = length (m_cards st))"
proof -
  have "(real (m_matches st) = real (length (m_cards st)) / 2) \<longleftrightarrow> (real (2 * m_matches st) = real (length (m_cards st)))"
    by (simp add: field_simps)
  also have "\<dots> \<longleftrightarrow> (2 * m_matches st = length (m_cards st))"
    by (simp only: of_nat_eq_iff)
  finally show ?thesis .
qed

lemma gameOverCheck_simp:
  "gameOverCheck st =
     (if m_cards st \<noteq> [] \<and> 2 * m_matches st = length (m_cards st)
      then st\<lparr> m_timers := m_timers st @ [(1000, ReportGameOver (max 0 (1000 - 20 * int (m_moves st))))] \<rparr>
      else st)"
  unfolding gameOverCheck_def gameOverCheck_cond by (simp add: Let_def mult.commute)

lemma checkMatch_not2:
  "length (m_flippedIds st) \<noteq> 2 \<Longrightarrow> checkMatch st = clearFlipBack st"
  by (simp add: checkMatch_def clearFlipBack_def Let_def)

lemma no_flipbacks_filter:
  "filter (\<lambda>(delay, cb). is_FlipBack cb) ts = [] \<Longrightarrow> filter (\<lambda>(delay, cb). \<not> is_FlipBack cb) ts = ts"
  by (induction ts) (auto split: if_splits)

lemma clearFlipBack_none:
  "pending_flipbacks (m_timers st) = [] \<Longrightarrow> clearFlipBack st = st"
  by (simp add: pending_flipbacks_def clearFlipBack_def no_flipbacks_filter)

lemma setFlipped_simps:
  "length (setFlipped P b cs) = length cs"
  "map card_id (setFlipped P b cs) = map card_id cs"
  "i < length cs \<Longrightarrow> isMatched (setFlipped P b cs ! i) = isMatched (cs ! i)"
  "i < length cs \<Longrightarrow> card_content (setFlipped P b cs ! i) = card_content (cs ! i)"
  "i < length cs \<Longrightarrow> isFlipped (setFlipped P b cs ! i) = (if P (cs ! i) then b else isFlipped (cs ! i))"
  "matched_ids (setFlipped P b cs) = matched_ids cs"
  "(setFlipped P b cs = []) = (cs = [])"
  by (auto simp: setFlipped_def matched_ids_def split: if_splits)

lemma setMatched_simps:
  "length (setMatched P cs) = length cs"
  "map card_id (setMatched P cs) = map card_id cs"
  "i < length cs \<Longrightarrow> isMatched (setMatched P cs ! i) = (P (cs ! i) \<or> isMatched (cs ! i))"
  "i < length cs \<Longrightarrow> card_content (setMatched P cs ! i) = card_content (cs ! i)"
  "i < length cs \<Longrightarrow> isFlipped (setMatched P cs ! i) = isFlipped (cs ! i)"
  "(setMatched P cs = []) = (cs = [])"
  by (auto simp: setMatched_def split: if_splits)

lemma inv_click_first:
  assumes inv: "memory_inv st" and id: "ident < length (m_cards st)"
    and len: "m_flippedIds st = []"
    and um: "\<not> isMatched (m_cards st ! ident)"
  shows "memory_inv (handleCardClick ident st)"
proof -
  let ?cs = "setFlipped (\<lambda>c. card_id c = ident) True (m_cards st)"
  let ?st1 = "st\<lparr> m_cards := ?cs, m_flippedIds := m_flippedIds st @ [ident] \<rparr>"
  have ids: "map card_id (m_cards st) = [0..<length (m_cards st)]"
    using inv by (simp add: memory_inv_def)
  have nofb: "pending_flipbacks (m_timers st) = []" using inv len by (simp add: memory_inv_def)
  have f: "find (\<lambda>c. card_id c = ident) (m_cards st) = Some (m_cards st ! ident)"
    using ids id by (rule find_by_id)
  have eq: "handleCardClick ident st = ?st1"
    using len um f nofb by (simp add: handleCardClick_def checkMatch_not2 clearFlipBack_none setFlipped_def)
  have idn: "card_id (m_cards st ! ident) = ident" using ids id by (rule id_nth)
  show ?thesis
    unfolding eq using inv id len um idn
    by (simp add: memory_inv_def setFlipped_simps)
qed

lemma matched_ids_finite [simp]: "finite (matched_ids cs)"
  by (simp add: matched_ids_def)

lemma all_matched:
  assumes "card (matched_ids cs) = length cs" "i < length cs"
  shows "isMatched (cs ! i)"
proof -
  have "matched_ids cs \<subseteq> {..<length cs}" by (auto simp: matched_ids_def)
  moreover have "card (matched_ids cs) = card {..<length cs}" using assms(1) by simp
  ultimately have "matched_ids cs = {..<length cs}" by (simp add: card_subset_eq)
  with assms(2) show ?thesis by (auto simp: matched_ids_def)
qed

lemma matched_ids_setMatched:
  assumes "map card_id cs = [0..<length cs]" "a < length cs" "b < length cs"
  shows "matched_ids (setMatched (\<lambda>c. card_id c = a \<or> card_id c = b) cs) = matched_ids cs \<union> {a, b}"
  using assms id_nth[OF assms(1)] by (auto simp: matched_ids_def setMatched_simps)

lemma pending_simps [simp]:
  "pending_reports [] = []"
  "pending_reports (ts @ us) = pending_reports ts @ pending_reports us"
  "pending_reports [(d, ReportGameOver s)] = [s]"
  "pending_reports [(d, FlipBack a b)] = []"
  "pending_flipbacks [] = []"
  "pending_flipbacks (ts @ us) = pending_flipbacks ts @ pending_flipbacks us"
  "pending_flipbacks [(d, ReportGameOver s)] = []"
  "pending_flipbacks [(d, FlipBack a b)] = [(d, FlipBack a b)]"
  by (simp_all add: pending_reports_def pending_flipbacks_def)

lemma inv_click_second:
  assumes inv: "memory_inv st" and id: "ident < length (m_cards st)"
    and len: "m_flippedIds st = [a]" and ne: "ident \<noteq> a"
    and um: "\<not> isMatched (m_cards st ! ident)"
  shows "memory_inv (handleCardClick ident st)"
proof -
  let ?n = "length (m_cards st)"
  let ?cs = "setFlipped (\<lambda>c. card_id c = ident) True (m_cards st)"
  let ?st1 = "st\<lparr> m_cards := ?cs, m_flippedIds := m_flippedIds st @ [ident] \<rparr>"
  have ids: "map card_id (m_cards st) = [0..<?n]"
    using inv by (simp add: memory_inv_def)
  have a: "a < ?n" "\<not> isMatched (m_cards st ! a)" "isFlipped (m_cards st ! a)"
    using inv len by (simp_all add: memory_inv_def)
  have nofb: "pending_flipbacks (m_timers st) = []" using inv len by (simp add: memory_inv_def)
  have cnt: "card (matched_ids (m_cards st)) = 2 * m_matches st" using inv by (simp add: memory_inv_def)
  have notall: "\<not> (m_cards st \<noteq> [] \<and> 2 * m_matches st = ?n)"
    using all_matched[of "m_cards st" ident] cnt id um by auto
  have rep: "pending_reports (m_timers st) = []" "m_calls st = []"
    using inv notall by (simp_all add: memory_inv_def)
  have del: "\<forall>t \<in> set (m_timers st). fst t = 1000" using inv by (simp add: memory_inv_def)
  have f: "find (\<lambda>c. card_id c = ident) (m_cards st) = Some (m_cards st ! ident)"
    using ids id by (rule find_by_id)
  have ids1: "map card_id ?cs = [0..<length ?cs]" using ids by (simp add: setFlipped_simps)
  have f1: "find (\<lambda>c. card_id c = ident) ?cs = Some (?cs ! ident)"
    using ids1 id by (intro find_by_id) (simp_all add: setFlipped_simps)
  have f2: "find (\<lambda>c. card_id c = a) ?cs = Some (?cs ! a)"
    using ids1 a by (intro find_by_id) (simp_all add: setFlipped_simps)
  have idn: "card_id (m_cards st ! ident) = ident" "card_id (m_cards st ! a) = a"
    using ids id a by (simp_all add: id_nth)
  have step: "handleCardClick ident st = checkMatch ?st1"
    using len ne um f by (simp add: handleCardClick_def setFlipped_def)
  have clr: "clearFlipBack ?st1 = ?st1"
    using nofb by (simp add: clearFlipBack_none)
  show ?thesis
  proof (cases "card_content (m_cards st ! a) = card_content (m_cards st ! ident)")
    case True
    let ?cs2 = "setMatched (\<lambda>c. card_id c = a \<or> card_id c = ident) ?cs"
    let ?st2 = "st\<lparr> m_moves := Suc (m_moves st), m_cards := ?cs2,
                    m_matches := Suc (m_matches st), m_flippedIds := [] \<rparr>"
    have eq: "handleCardClick ident st = gameOverCheck ?st2"
      unfolding step checkMatch_def clr using len f1 f2 True id a
      by (simp add: Let_def setFlipped_simps setMatched_def)
    have m2: "matched_ids ?cs2 = matched_ids (m_cards st) \<union> {a, ident}"
      using matched_ids_setMatched[OF ids1, of a ident] a id by (simp add: setFlipped_simps)
    have "a \<notin> matched_ids (m_cards st)" "ident \<notin> matched_ids (m_cards st)"
      using a um by (simp_all add: matched_ids_def)
    then have c2: "card (matched_ids ?cs2) = 2 * (m_matches st + 1)"
      unfolding m2 using cnt ne by simp
    show ?thesis
      unfolding eq gameOverCheck_simp using ids del rep c2 nofb
      by (simp add: memory_inv_def setFlipped_simps setMatched_simps)
  next
    case False
    let ?st2 = "st\<lparr> m_cards := ?cs, m_flippedIds := [a, ident], m_moves := m_moves st + 1,
                    m_timers := m_timers st @ [(1000, FlipBack a ident)] \<rparr>"
    have eq: "handleCardClick ident st = gameOverCheck ?st2"
      unfolding step checkMatch_def clr using len f1 f2 False id a
      by (simp add: Let_def setFlipped_simps)
    have noGO: "gameOverCheck ?st2 = ?st2"
      using notall by (simp add: gameOverCheck_simp setFlipped_simps)
    show ?thesis
      unfolding eq noGO using ids del rep cnt notall nofb a id um ne idn False
      by (simp add: memory_inv_def setFlipped_simps)
  qed
qed

lemma inv_click:
  assumes inv: "memory_inv st" and id: "ident < length (m_cards st)"
  shows "memory_inv (handleCardClick ident st)"
proof -
  have ids: "map card_id (m_cards st) = [0..<length (m_cards st)]"
    using inv by (simp add: memory_inv_def)
  have f: "find (\<lambda>c. card_id c = ident) (m_cards st) = Some (m_cards st ! ident)"
    using ids id by (rule find_by_id)
  have le2: "length (m_flippedIds st) \<le> 2" using inv by (simp add: memory_inv_def)
  consider (blocked) "length (m_flippedIds st) \<ge> 2 \<or> ident \<in> set (m_flippedIds st) \<or> isMatched (m_cards st ! ident)"
    | (first) "m_flippedIds st = []" "\<not> isMatched (m_cards st ! ident)"
    | (second) a where "m_flippedIds st = [a]" "ident \<noteq> a" "\<not> isMatched (m_cards st ! ident)"
  proof (cases "m_flippedIds st")
    case Nil
    then show ?thesis using that by auto
  next
    case (Cons a as)
    then show ?thesis using that le2 by (cases as) auto
  qed
  then show ?thesis
  proof cases
    case blocked
    then have "handleCardClick ident st = st"
      using f by (auto simp: handleCardClick_def)
    then show ?thesis using inv by simp
  next
    case first
    then show ?thesis using inv id by (intro inv_click_first)
  next
    case second
    then show ?thesis using inv id by (intro inv_click_second)
  qed
qed

lemma splice1_pending:
  assumes "k < length ts"
  shows "pending_reports ts = pending_reports (take k ts) @ report_score (ts ! k) @ pending_reports (drop (Suc k) ts)"
    and "pending_reports (splice1 k ts) = pending_reports (take k ts) @ pending_reports (drop (Suc k) ts)"
    and "pending_flipbacks ts = pending_flipbacks (take k ts) @ pending_flipbacks [ts ! k] @ pending_flipbacks (drop (Suc k) ts)"
    and "pending_flipbacks (splice1 k ts) = pending_flipbacks (take k ts) @ pending_flipbacks (drop (Suc k) ts)"
proof -
  have ts: "ts = take k ts @ [ts ! k] @ drop (Suc k) ts"
    using assms by (simp add: id_take_nth_drop[symmetric])
  show "pending_reports ts = pending_reports (take k ts) @ report_score (ts ! k) @ pending_reports (drop (Suc k) ts)"
    by (subst ts) (simp add: pending_reports_def)
  show "pending_flipbacks ts = pending_flipbacks (take k ts) @ pending_flipbacks [ts ! k] @ pending_flipbacks (drop (Suc k) ts)"
    by (subst ts) (simp only: pending_simps)
  show "pending_reports (splice1 k ts) = pending_reports (take k ts) @ pending_reports (drop (Suc k) ts)"
    by (simp add: splice1_def)
  show "pending_flipbacks (splice1 k ts) = pending_flipbacks (take k ts) @ pending_flipbacks (drop (Suc k) ts)"
    by (simp add: splice1_def)
qed

lemma set_splice1: "set (splice1 k ts) \<subseteq> set ts"
  by (auto simp: splice1_def dest: in_set_takeD in_set_dropD)

lemma cleared_pending:
  "pending_reports (filter (\<lambda>(delay, cb). \<not> is_FlipBack cb) ts) = pending_reports ts"
  "pending_flipbacks (filter (\<lambda>(delay, cb). \<not> is_FlipBack cb) ts) = []"
proof -
  show "pending_reports (filter (\<lambda>(delay, cb). \<not> is_FlipBack cb) ts) = pending_reports ts"
  proof (induction ts)
    case Nil
    then show ?case by simp
  next
    case (Cons t ts)
    obtain d cb where t: "t = (d, cb)" by (cases t)
    show ?case using Cons t by (cases cb) (simp_all add: pending_reports_def)
  qed
  show "pending_flipbacks (filter (\<lambda>(delay, cb). \<not> is_FlipBack cb) ts) = []"
    by (induction ts) (auto simp: pending_flipbacks_def)
qed

lemma inv_timeout:
  assumes inv: "memory_inv st"
  shows "memory_inv (memory_step st (TimeoutFires k))"
proof (cases "k < length (m_timers st)")
  case False
  then show ?thesis using inv by simp
next
  case k: True
  let ?ts = "m_timers st"
  obtain d cb where t: "?ts ! k = (d, cb)" by (cases "?ts ! k")
  have ids: "map card_id (m_cards st) = [0..<length (m_cards st)]"
    using inv by (simp add: memory_inv_def)
  have del: "\<forall>t \<in> set ?ts. fst t = 1000" using inv by (simp add: memory_inv_def)
  show ?thesis
  proof (cases cb)
    case (FlipBack f s)
    have "pending_flipbacks ?ts \<noteq> []"
      using splice1_pending(3)[OF k] t FlipBack by simp
    then have len: "length (m_flippedIds st) = 2"
      using inv by (auto simp: memory_inv_def split: if_splits)
    have rp: "pending_reports (splice1 k ?ts) = pending_reports ?ts"
      using splice1_pending(1,2)[OF k] t FlipBack by simp
    let ?st1 = "st\<lparr> m_timers := splice1 k ?ts,
                    m_cards := setFlipped (\<lambda>c. card_id c = f \<or> card_id c = s) False (m_cards st),
                    m_flippedIds := [] \<rparr>"
    have eq: "memory_step st (TimeoutFires k) = clearFlipBack ?st1"
      using k t FlipBack by (simp add: checkMatch_not2 setFlipped_def)
    have del': "\<forall>t \<in> set (filter (\<lambda>(delay, cb). \<not> is_FlipBack cb) (splice1 k ?ts)). fst t = 1000"
      using del set_splice1[of k ?ts] by fastforce
    show ?thesis
      unfolding eq using inv del'
      by (simp add: memory_inv_def clearFlipBack_def cleared_pending rp setFlipped_simps)
  next
    case (ReportGameOver v)
    have rp: "pending_reports ?ts = pending_reports (take k ?ts) @ [v] @ pending_reports (drop (Suc k) ?ts)"
      using splice1_pending(1)[OF k] t ReportGameOver by simp
    have rp': "pending_reports (splice1 k ?ts) = pending_reports (take k ?ts) @ pending_reports (drop (Suc k) ?ts)"
      using splice1_pending(2)[OF k] by simp
    have ms: "mset (pending_reports (splice1 k ?ts)) + mset (m_calls st @ [v]) = mset (pending_reports ?ts) + mset (m_calls st)"
      unfolding rp rp' by simp
    have fb: "pending_flipbacks (splice1 k ?ts) = pending_flipbacks ?ts"
      using splice1_pending(3,4)[OF k] t ReportGameOver by simp
    have eq: "memory_step st (TimeoutFires k) = st\<lparr> m_timers := splice1 k ?ts, m_calls := m_calls st @ [v] \<rparr>"
      using k t ReportGameOver by simp
    have del': "\<forall>t \<in> set (splice1 k ?ts). fst t = 1000"
      using del set_splice1[of k ?ts] by fastforce
    show ?thesis
      unfolding eq using inv del' ms
      by (simp add: memory_inv_def fb)
  qed
qed

lemma len_gameOverCheck [simp]: "m_cards (gameOverCheck st) = m_cards st"
  by (simp add: gameOverCheck_def Let_def)

lemma len_checkMatch [simp]: "length (m_cards (checkMatch st)) = length (m_cards st)"
  by (simp add: checkMatch_def clearFlipBack_def Let_def)

lemma len_step: "length (m_cards (memory_step st ev)) = length (m_cards st)"
proof (cases ev)
  case (CardClick ident)
  then show ?thesis by (simp add: handleCardClick_def)
next
  case (TimeoutFires k)
  show ?thesis
  proof (cases "k < length (m_timers st)")
    case True
    obtain d cb where "m_timers st ! k = (d, cb)" by (cases "m_timers st ! k")
    then show ?thesis using TimeoutFires True by (cases cb) simp_all
  next
    case False
    then show ?thesis using TimeoutFires by simp
  qed
qed

lemma len_run: "length (m_cards (memory_run st evs)) = length (m_cards st)"
  unfolding memory_run_def by (induction evs arbitrary: st) (simp_all add: len_step)

lemma inv_step:
  "memory_inv st \<Longrightarrow> clickable (length (m_cards st)) ev \<Longrightarrow> memory_inv (memory_step st ev)"
  by (cases ev) (simp_all add: inv_click inv_timeout del: memory_step.simps(2))

lemma inv_run:
  "memory_inv st \<Longrightarrow> list_all (clickable (length (m_cards st))) evs \<Longrightarrow> memory_inv (memory_run st evs)"
  unfolding memory_run_def
proof (induction evs arbitrary: st)
  case Nil
  then show ?case by simp
next
  case (Cons ev evs)
  have "memory_inv (memory_step st ev)" using Cons.prems by (simp add: inv_step)
  moreover have "list_all (clickable (length (m_cards (memory_step st ev)))) evs"
    using Cons.prems by (simp add: len_step)
  ultimately show ?case using Cons.IH by simp
qed

lemma length_sort_random [simp]: "length (sort_random rs xs) = length xs"
  by (induction rs xs rule: sort_random.induct) (auto simp: splice1_def Let_def)

lemma mset_splice1: "i < length xs \<Longrightarrow> add_mset (xs ! i) (mset (splice1 i xs)) = mset xs"
proof -
  assume "i < length xs"
  then have "xs = take i xs @ xs ! i # drop (Suc i) xs" by (rule id_take_nth_drop)
  then have "mset xs = mset (take i xs @ xs ! i # drop (Suc i) xs)" by simp
  then show ?thesis by (simp add: splice1_def)
qed

lemma mset_sort_random [simp]: "mset (sort_random rs xs) = mset xs"
proof (induction rs xs rule: sort_random.induct)
  case (3 r rs v va)
  let ?xs = "v # va"
  have "r mod length ?xs < length ?xs" by simp
  from mset_splice1[OF this] 3 show ?case by (simp add: Let_def)
qed simp_all

lemma deck_fields:
  "card_id \<circ> (\<lambda>(index, item).
      \<lparr> card_id = index, card_content = item, isFlipped = False, isMatched = False \<rparr>) = fst"
  "card_content \<circ> (\<lambda>(index, item).
      \<lparr> card_id = index, card_content = item, isFlipped = False, isMatched = False \<rparr>) = snd"
  by (auto simp: fun_eq_iff)

lemma deck_contents:
  "map card_content (buildDeck rs config) =
     sort_random rs (take 8 (assets config) @ take 8 (assets config))"
  by (simp add: buildDeck_def Let_def deck_fields)

lemma deck_length: "length (buildDeck rs config) = 2 * min 8 (length (assets config))"
  by (simp add: buildDeck_def Let_def)

lemma deck_ids: "map card_id (buildDeck rs config) = [0..<length (buildDeck rs config)]"
  by (simp add: buildDeck_def Let_def deck_fields)

lemma deck_fresh:
  "c \<in> set (buildDeck rs config) \<Longrightarrow> \<not> isMatched c \<and> \<not> isFlipped c"
  by (auto simp: buildDeck_def Let_def)

lemma mount_simp:
  "memory_mount rs config = (memory_initial config)\<lparr> m_cards := buildDeck rs config \<rparr>"
  by (simp add: memory_mount_def memory_initial_def checkMatch_not2 clearFlipBack_def
      gameOverCheck_simp Let_def)

lemma inv_mount: "memory_inv (memory_mount rs config)"
proof -
  have "matched_ids (buildDeck rs config) = {}"
    using deck_fresh[of _ rs config] by (auto simp: matched_ids_def)
  then show ?thesis
    unfolding mount_simp using deck_ids[of rs config]
    by (auto simp: memory_inv_def memory_initial_def)
qed

lemma moves_gameOverCheck [simp]: "m_moves (gameOverCheck st) = m_moves st"
  by (simp add: gameOverCheck_def Let_def)

lemma moves_checkMatch:
  "m_moves (checkMatch st) = (if length (m_flippedIds st) = 2 then m_moves st + 1 else m_moves st)"
  by (simp add: checkMatch_def clearFlipBack_def Let_def)

lemma moves_step:
  "m_moves (memory_step st ev) = m_moves st + (if second_flip st ev then 1 else 0)"
proof (cases ev)
  case (CardClick ident)
  then show ?thesis
    by (auto simp: handleCardClick_def moves_checkMatch split: option.splits)
next
  case (TimeoutFires k)
  show ?thesis
  proof (cases "k < length (m_timers st)")
    case True
    obtain d cb where "m_timers st ! k = (d, cb)" by (cases "m_timers st ! k")
    then show ?thesis using TimeoutFires True by (cases cb) (simp_all add: moves_checkMatch)
  next
    case False
    then show ?thesis using TimeoutFires by simp
  qed
qed

lemma moves_run: "m_moves (memory_run st evs) = m_moves st + evaluations st evs"
  unfolding memory_run_def
  by (induction evs arbitrary: st) (simp_all add: moves_step)

subsection \<open>Memory: game over, mismatches, the empty deck\<close>

lemma reachable_inv:
  assumes "list_all (clickable (length (buildDeck rs config))) evs"
  shows "memory_inv (memory_run (memory_mount rs config) evs)"
  using assms by (intro inv_run inv_mount) (simp add: mount_simp)

lemma reachable_cards_length:
  "length (m_cards (memory_run (memory_mount rs config) evs)) = length (buildDeck rs config)"
  by (simp add: len_run mount_simp)

lemma matched_count: "length (filter isMatched cs) = card (matched_ids cs)"
  by (simp add: matched_ids_def length_filter_conv_card)

lemma one_report:
  assumes "mset ps + mset cs = {#v#}"
  shows "(ps = [v] \<and> cs = []) \<or> (ps = [] \<and> cs = [v])"
proof (cases ps)
  case Nil
  with assms show ?thesis by simp
next
  case (Cons p ps')
  with assms have "add_mset p (mset ps' + mset cs) = {#v#}" by simp
  then have "p = v" "mset ps' + mset cs = {#}" by (simp_all add: add_mset_eq_single)
  with Cons show ?thesis by simp
qed

text \<open>
  C6 (amended). In a Memory session with a non-empty deck, whatever cards are clicked and
  whichever timeouts expire: as long as some card is unmatched no game-over timeout is pending
  and \<open>onGameOver\<close> has not been called; once the number of matched cards equals the deck
  size, exactly one game-over timeout of 1000 ms has been set, and \<open>onGameOver\<close> is called
  exactly once, when it expires, with \<open>max(0, 1000 - 20 * moves)\<close>, where \<open>moves\<close> is the
  number of two-card evaluations of the session.
\<close>
theorem memory_game_over_once:
  assumes nonempty: "assets config \<noteq> []"
    and clicks: "list_all (clickable (length (buildDeck rs config))) evs"
  shows "(let st = memory_run (memory_mount rs config) evs;
              finalScore = max 0 (1000 - 20 * int (evaluations (memory_mount rs config) evs))
          in m_moves st = evaluations (memory_mount rs config) evs
           \<and> (\<forall>t \<in> set (m_timers st). fst t = 1000)
           \<and> (if length (filter isMatched (m_cards st)) = length (m_cards st)
               then (pending_reports (m_timers st) = [finalScore] \<and> m_calls st = [])
                  \<or> (pending_reports (m_timers st) = [] \<and> m_calls st = [finalScore])
               else pending_reports (m_timers st) = [] \<and> m_calls st = []))"
proof -
  let ?st = "memory_run (memory_mount rs config) evs"
  have inv: "memory_inv ?st" using clicks by (rule reachable_inv)
  have mv: "m_moves ?st = evaluations (memory_mount rs config) evs"
    by (simp add: moves_run mount_simp memory_initial_def)
  have ne: "m_cards ?st \<noteq> []"
    using reachable_cards_length[of rs config evs] nonempty
    by (cases "assets config") (auto simp: deck_length)
  have cnt: "length (filter isMatched (m_cards ?st)) = 2 * m_matches ?st"
    using inv by (simp add: matched_count memory_inv_def)
  have del: "\<forall>t \<in> set (m_timers ?st). fst t = 1000" using inv by (simp add: memory_inv_def)
  have rep: "mset (pending_reports (m_timers ?st)) + mset (m_calls ?st) =
        (if 2 * m_matches ?st = length (m_cards ?st)
         then {# max 0 (1000 - 20 * int (m_moves ?st)) #} else {#})"
    using inv ne by (simp add: memory_inv_def)
  show ?thesis
  proof (cases "2 * m_matches ?st = length (m_cards ?st)")
    case True
    with rep have "mset (pending_reports (m_timers ?st)) + mset (m_calls ?st) =
       {# max 0 (1000 - 20 * int (m_moves ?st)) #}" by simp
    from one_report[OF this] True mv del cnt show ?thesis by (simp add: Let_def)
  next
    case False
    with rep have "pending_reports (m_timers ?st) = []" "m_calls ?st = []" by simp_all
    with False mv del cnt show ?thesis by (simp add: Let_def)
  qed
qed

text \<open>
  C7. Whenever two cards are face-up and unresolved in a Memory session, their contents differ,
  a timeout of 1000 ms that flips exactly these two cards back is pending, its expiry turns
  both face-down and empties the list of flipped cards, and until then a click on any card
  changes nothing, so no third card can be flipped and nothing cancels the timeout.
\<close>
theorem memory_mismatch_flips_back:
  assumes clicks: "list_all (clickable (length (buildDeck rs config))) evs"
    and two: "m_flippedIds (memory_run (memory_mount rs config) evs) = [first, second]"
  shows "(let st = memory_run (memory_mount rs config) evs
          in isFlipped (m_cards st ! first) \<and> isFlipped (m_cards st ! second)
           \<and> card_content (m_cards st ! first) \<noteq> card_content (m_cards st ! second)
           \<and> (\<exists>k < length (m_timers st).
                  m_timers st ! k = (1000, FlipBack first second)
                \<and> m_flippedIds (memory_step st (TimeoutFires k)) = []
                \<and> \<not> isFlipped (m_cards (memory_step st (TimeoutFires k)) ! first)
                \<and> \<not> isFlipped (m_cards (memory_step st (TimeoutFires k)) ! second))
           \<and> (\<forall>ident. memory_step st (CardClick ident) = st))"
proof -
  let ?st = "memory_run (memory_mount rs config) evs"
  have inv: "memory_inv ?st" using clicks by (rule reachable_inv)
  have ids: "map card_id (m_cards ?st) = [0..<length (m_cards ?st)]"
    using inv by (simp add: memory_inv_def)
  have fs: "first < length (m_cards ?st)" "second < length (m_cards ?st)"
    "isFlipped (m_cards ?st ! first)" "isFlipped (m_cards ?st ! second)"
    "card_content (m_cards ?st ! first) \<noteq> card_content (m_cards ?st ! second)"
    using inv two by (simp_all add: memory_inv_def)
  have "pending_flipbacks (m_timers ?st) = [(1000, FlipBack first second)]"
    using inv two by (simp add: memory_inv_def)
  then have "(1000, FlipBack first second) \<in> set (pending_flipbacks (m_timers ?st))"
    by simp
  then have "(1000, FlipBack first second) \<in> set (m_timers ?st)"
    unfolding pending_flipbacks_def by simp
  then obtain k where k: "k < length (m_timers ?st)" "m_timers ?st ! k = (1000, FlipBack first second)"
    by (auto simp: in_set_conv_nth)
  let ?st' = "memory_step ?st (TimeoutFires k)"
  have eq: "?st' = clearFlipBack (?st\<lparr> m_timers := splice1 k (m_timers ?st),
                    m_cards := setFlipped (\<lambda>c. card_id c = first \<or> card_id c = second) False (m_cards ?st),
                    m_flippedIds := [] \<rparr>)"
    using k by (simp add: checkMatch_not2 setFlipped_def)
  have down: "m_flippedIds ?st' = []" "\<not> isFlipped (m_cards ?st' ! first)" "\<not> isFlipped (m_cards ?st' ! second)"
    unfolding eq using fs id_nth[OF ids] by (simp_all add: clearFlipBack_def setFlipped_simps)
  have blocked: "\<forall>ident. memory_step ?st (CardClick ident) = ?st"
    using two by (simp add: handleCardClick_def)
  show ?thesis
    unfolding Let_def using fs(3-5) k down blocked by blast
qed

lemma checkMatch_empty_deck:
  assumes "m_cards st = []"
  shows "m_cards (checkMatch st) = []"
    and "m_calls (checkMatch st) = m_calls st"
    and "pending_reports (m_timers (checkMatch st)) = pending_reports (m_timers st)"
  using assms
  by (simp_all add: checkMatch_def clearFlipBack_def gameOverCheck_simp Let_def cleared_pending)

lemma step_empty_deck:
  assumes "m_cards st = []" "m_calls st = []" "pending_reports (m_timers st) = []"
  shows "m_cards (memory_step st ev) = [] \<and> m_calls (memory_step st ev) = []
       \<and> pending_reports (m_timers (memory_step st ev)) = []"
proof (cases ev)
  case (CardClick ident)
  then show ?thesis using assms
    by (simp add: handleCardClick_def checkMatch_empty_deck)
next
  case (TimeoutFires k)
  show ?thesis
  proof (cases "k < length (m_timers st)")
    case False
    then show ?thesis using TimeoutFires assms by simp
  next
    case True
    obtain d cb where t: "m_timers st ! k = (d, cb)" by (cases "m_timers st ! k")
    from splice1_pending(1)[OF True] assms(3) t obtain f s where cb: "cb = FlipBack f s"
      by (cases cb) auto
    have "pending_reports (splice1 k (m_timers st)) = []"
      using splice1_pending(1,2)[OF True] assms(3) by simp
    then show ?thesis using TimeoutFires True t cb assms
      by (simp add: checkMatch_empty_deck)
  qed
qed

text \<open>
  C10. With an empty asset list the Memory deck is empty, and whatever happens afterwards no
  game-over timeout is ever set and \<open>onGameOver\<close> is never called.
\<close>
theorem memory_empty_assets_never_ends:
  assumes "assets config = []"
  shows "m_cards (memory_mount rs config) = []
       \<and> m_cards (memory_run (memory_mount rs config) evs) = []
       \<and> m_calls (memory_run (memory_mount rs config) evs) = []
       \<and> pending_reports (m_timers (memory_run (memory_mount rs config) evs)) = []"
proof -
  have init: "m_cards (memory_mount rs config) = []" "m_calls (memory_mount rs config) = []"
    "pending_reports (m_timers (memory_mount rs config)) = []"
    using assms by (simp_all add: mount_simp memory_initial_def buildDeck_def)
  have "m_cards st = [] \<Longrightarrow> m_calls st = [] \<Longrightarrow> pending_reports (m_timers st) = [] \<Longrightarrow>
        m_cards (foldl memory_step st evs) = [] \<and> m_calls (foldl memory_step st evs) = []
        \<and> pending_reports (m_timers (foldl memory_step st evs)) = []" for st
  proof (induction evs arbitrary: st)
    case Nil
    then show ?case by simp
  next
    case (Cons ev evs)
    from step_empty_deck[OF Cons.prems, of ev] Cons.IH show ?case by simp
  qed
  from this[OF init] init(1) show ?thesis by (simp add: memory_run_def)
qed

subsection \<open>Memory: the deck\<close>

lemma sort_random_any_order:
  "mset ys = mset xs \<Longrightarrow> \<exists>rs. sort_random rs xs = ys"
proof (induction ys arbitrary: xs)
  case Nil
  then show ?case by (intro exI[of _ "[]"]) simp
next
  case (Cons y ys)
  then have "y \<in> set xs" by (metis list.set_intros(1) set_mset_mset)
  then obtain i where i: "i < length xs" "xs ! i = y" by (auto simp: in_set_conv_nth)
  have "add_mset y (mset (splice1 i xs)) = mset xs" using mset_splice1[OF i(1)] i(2) by simp
  with Cons.prems have "add_mset y (mset ys) = add_mset y (mset (splice1 i xs))" by simp
  then have "mset ys = mset (splice1 i xs)" by (simp only: add_mset_add_mset_same_iff)
  from Cons.IH[OF this] obtain rs where rs: "sort_random rs (splice1 i xs) = ys" by blast
  obtain x xs' where xs: "xs = x # xs'" using i(1) by (cases xs) auto
  have "sort_random (i # rs) xs = ys' " if "ys' = y # ys" for ys'
    using i rs that unfolding xs by (simp add: Let_def)
  then show ?case by blast
qed

lemma count_sort_random: "count_list (sort_random rs xs) c = count_list xs c"
  using mset_sort_random[of rs xs] by (metis count_mset)

lemma count_distinct: "distinct xs \<Longrightarrow> c \<in> set xs \<Longrightarrow> count_list xs c = 1"
  by (induction xs) auto

text \<open>
  C3 (amended). The deck holds every content value twice as often as the first eight assets do:
  for eight or more assets it has sixteen cards, and when the first eight assets are pairwise
  different every content value is on exactly two cards; for fewer than eight assets the deck
  has twice as many cards as there are assets.
\<close>
theorem memory_deck_pairs:
  "(\<forall>c. count_list (map card_content (buildDeck rs config)) c = 2 * count_list (take 8 (assets config)) c)
   \<and> (8 \<le> length (assets config) \<longrightarrow>
        length (buildDeck rs config) = 16 \<and> even (length (buildDeck rs config))
      \<and> (distinct (take 8 (assets config)) \<longrightarrow>
           (\<forall>c \<in> set (map card_content (buildDeck rs config)).
               count_list (map card_content (buildDeck rs config)) c = 2)))
   \<and> (length (assets config) < 8 \<longrightarrow> length (buildDeck rs config) = 2 * length (assets config))"
proof -
  let ?sel = "take 8 (assets config)"
  have cnt: "count_list (map card_content (buildDeck rs config)) c = 2 * count_list ?sel c" for c
    by (simp add: deck_contents count_sort_random)
  have mem: "set (map card_content (buildDeck rs config)) = set ?sel"
    unfolding deck_contents using mset_sort_random[of rs "?sel @ ?sel"]
    by (metis set_mset_mset set_append sup.idem)
  have two: "count_list (map card_content (buildDeck rs config)) c = 2"
    if "distinct ?sel" "c \<in> set (map card_content (buildDeck rs config))" for c
    using that cnt[of c] mem count_distinct[of ?sel c] by simp
  show ?thesis
    using cnt two by (auto simp: deck_length)
qed

theorem memory_deck_duplicate_counterexample:
  "8 \<le> length (assets dupConfig)
   \<and> ''a'' \<in> set (map card_content (buildDeck [] dupConfig))
   \<and> count_list (map card_content (buildDeck [] dupConfig)) ''a'' = 4"
  by (simp add: dupConfig_def deck_contents)

theorem memory_deck_pairs_witness:
  "8 \<le> length (assets (fallbackConfig\<lparr> assets := [''a'', ''b'', ''c'', ''d'', ''e'', ''f'', ''g'', ''h'', ''i''] \<rparr>))
   \<and> distinct (take 8 (assets (fallbackConfig\<lparr> assets := [''a'', ''b'', ''c'', ''d'', ''e'', ''f'', ''g'', ''h'', ''i''] \<rparr>)))
   \<and> ''c'' \<in> set (map card_content (buildDeck [3, 1, 4] (fallbackConfig\<lparr> assets := [''a'', ''b'', ''c'', ''d'', ''e'', ''f'', ''g'', ''h'', ''i''] \<rparr>)))
   \<and> count_list (map card_content (buildDeck [3, 1, 4] (fallbackConfig\<lparr> assets := [''a'', ''b'', ''c'', ''d'', ''e'', ''f'', ''g'', ''h'', ''i''] \<rparr>))) ''c'' = 2
   \<and> length (assets (fallbackConfig\<lparr> assets := [''a'', ''b''] \<rparr>)) < 8
   \<and> length (buildDeck [3, 1, 4] (fallbackConfig\<lparr> assets := [''a'', ''b''] \<rparr>)) = 4"
  using memory_deck_pairs[of "[3, 1, 4]" "fallbackConfig\<lparr> assets := [''a'', ''b'', ''c'', ''d'', ''e'', ''f'', ''g'', ''h'', ''i''] \<rparr>"]
    memory_deck_pairs[of "[3, 1, 4]" "fallbackConfig\<lparr> assets := [''a'', ''b''] \<rparr>"]
  by (simp add: deck_contents splice1_def Let_def)

subsection \<open>Memory: example sessions\<close>

lemmas memory_eval =
  memory_run_def mount_simp memory_initial_def buildDeck_def handleCardClick_def checkMatch_def
  clearFlipBack_def gameOverCheck_simp splice1_def Let_def

theorem memory_empty_deck_counterexample:
  "m_cards (memory_run (memory_mount [] emptyConfig) [TimeoutFires 0]) = []
   \<and> length (filter isMatched (m_cards (memory_run (memory_mount [] emptyConfig) [TimeoutFires 0])))
       = length (m_cards (memory_run (memory_mount [] emptyConfig) [TimeoutFires 0]))
   \<and> m_timers (memory_run (memory_mount [] emptyConfig) [TimeoutFires 0]) = []
   \<and> m_calls (memory_run (memory_mount [] emptyConfig) [TimeoutFires 0]) = []"
  by (simp add: emptyConfig_def memory_eval)

theorem memory_game_over_once_witness:
  "assets pairConfig \<noteq> []
   \<and> list_all (clickable (length (buildDeck [] pairConfig))) [CardClick 0, CardClick 1, TimeoutFires 0]
   \<and> evaluations (memory_mount [] pairConfig) [CardClick 0, CardClick 1, TimeoutFires 0] = 1
   \<and> length (filter isMatched (m_cards (memory_run (memory_mount [] pairConfig)
        [CardClick 0, CardClick 1, TimeoutFires 0]))) = 2
   \<and> m_calls (memory_run (memory_mount [] pairConfig) [CardClick 0, CardClick 1, TimeoutFires 0]) = [980]
   \<and> pending_reports (m_timers (memory_run (memory_mount [] pairConfig) [CardClick 0, CardClick 1])) = [980]
   \<and> m_calls (memory_run (memory_mount [] pairConfig) [CardClick 0, CardClick 1]) = []"
  using memory_game_over_once[of pairConfig "[]" "[CardClick 0, CardClick 1, TimeoutFires 0]"]
    memory_game_over_once[of pairConfig "[]" "[CardClick 0, CardClick 1]"]
  by (simp add: pairConfig_def memory_eval)

theorem memory_mismatch_flips_back_witness:
  "list_all (clickable (length (buildDeck [] twoPairConfig))) [CardClick 0, CardClick 1]
   \<and> m_flippedIds (memory_run (memory_mount [] twoPairConfig) [CardClick 0, CardClick 1]) = [0, 1]
   \<and> m_timers (memory_run (memory_mount [] twoPairConfig) [CardClick 0, CardClick 1]) = [(1000, FlipBack 0 1)]
   \<and> m_flippedIds (memory_step (memory_run (memory_mount [] twoPairConfig) [CardClick 0, CardClick 1])
        (TimeoutFires 0)) = []
   \<and> map isFlipped (m_cards (memory_step (memory_run (memory_mount [] twoPairConfig) [CardClick 0, CardClick 1])
        (TimeoutFires 0))) = [False, False, False, False]
   \<and> memory_step (memory_run (memory_mount [] twoPairConfig) [CardClick 0, CardClick 1]) (CardClick 2)
       = memory_run (memory_mount [] twoPairConfig) [CardClick 0, CardClick 1]"
  using memory_mismatch_flips_back[of "[]" twoPairConfig "[CardClick 0, CardClick 1]" 0 1]
  by (simp add: twoPairConfig_def memory_eval)

theorem memory_empty_assets_never_ends_witness:
  "assets emptyConfig = []
   \<and> m_calls (memory_run (memory_mount [] emptyConfig) [CardClick 0, CardClick 1, TimeoutFires 0]) = []
   \<and> pending_reports (m_timers (memory_run (memory_mount [] emptyConfig)
        [CardClick 0, CardClick 1, TimeoutFires 0])) = []"
  using memory_empty_assets_never_ends[of emptyConfig "[]" "[CardClick 0, CardClick 1, TimeoutFires 0]"]
  by (simp add: emptyConfig_def)

subsection \<open>Clicker: taps and decay\<close>

lemma click_forEach_done:
  "length (c_entities st) \<le> k \<Longrightarrow> click_forEach x y k len st = st"
proof (induction x y k len st rule: click_forEach.induct)
  case (1 x y k len st)
  show ?case
  proof (cases "k < len")
    case True
    with 1 show ?thesis by (subst click_forEach.simps) simp
  next
    case False
    then show ?thesis by (subst click_forEach.simps) simp
  qed
qed

lemma splice1_append [simp]: "splice1 (length pre) (pre @ e # rest) = pre @ rest"
  by (simp add: splice1_def)

lemma click_forEach_entities:
  "c_entities st = pre @ rest \<Longrightarrow> k = length pre \<Longrightarrow> k + length rest \<le> len \<Longrightarrow>
     c_entities (click_forEach x y k len st) = pre @ click_remaining x y rest
   \<and> c_score (click_forEach x y k len st) =
       c_score st + 10 * (int (length rest) - int (length (click_remaining x y rest)))"
proof (induction x y rest arbitrary: pre k st rule: click_remaining.induct)
  case (1 x y)
  then show ?case by (simp add: click_forEach_done)
next
  case (2 x y e)
  then have k: "k < len" "k < length (c_entities st)" "c_entities st ! k = e" by simp_all
  show ?case
  proof (cases "hit x y e")
    case True
    let ?st' = "st\<lparr> c_score := c_score st + 10, c_shownScore := c_score st + 10,
                    c_entities := splice1 k (c_entities st) \<rparr>"
    have "click_forEach x y k len st = click_forEach x y (Suc k) len ?st'"
      using k True by (subst click_forEach.simps) simp
    also have "\<dots> = ?st'" using 2 by (intro click_forEach_done) simp
    finally show ?thesis using 2 True by simp
  next
    case False
    have "click_forEach x y k len st = click_forEach x y (Suc k) len st"
      using k False by (subst click_forEach.simps) simp
    also have "\<dots> = st" using 2 by (intro click_forEach_done) simp
    finally show ?thesis using 2 False by simp
  qed
next
  case (3 x y e e' es)
  then have k: "k < len" "k < length (c_entities st)" "c_entities st ! k = e" by simp_all
  show ?case
  proof (cases "hit x y e")
    case True
    let ?st' = "st\<lparr> c_score := c_score st + 10, c_shownScore := c_score st + 10,
                    c_entities := splice1 k (c_entities st) \<rparr>"
    have step: "click_forEach x y k len st = click_forEach x y (Suc k) len ?st'"
      using k True by (subst click_forEach.simps) simp
    have ents: "c_entities ?st' = (pre @ [e']) @ es" using 3(3,4) by simp
    have "c_entities (click_forEach x y (Suc k) len ?st') = (pre @ [e']) @ click_remaining x y es
       \<and> c_score (click_forEach x y (Suc k) len ?st') =
           c_score ?st' + 10 * (int (length es) - int (length (click_remaining x y es)))"
      using 3(3-5) by (intro 3(1)[OF True ents]) simp_all
    then show ?thesis unfolding step using True by simp
  next
    case False
    have step: "click_forEach x y k len st = click_forEach x y (Suc k) len st"
      using k False by (subst click_forEach.simps) simp
    have ents: "c_entities st = (pre @ [e]) @ e' # es" using 3(3) by simp
    have "c_entities (click_forEach x y (Suc k) len st) = (pre @ [e]) @ click_remaining x y (e' # es)
       \<and> c_score (click_forEach x y (Suc k) len st) =
           c_score st + 10 * (int (length (e' # es)) - int (length (click_remaining x y (e' # es))))"
      using 3(3-5) by (intro 3(2)[OF False ents]) simp_all
    then show ?thesis unfolding step using False by simp
  qed
qed

lemma click_remaining_subseq: "subseq (click_remaining x y es) es"
  by (induction x y es rule: click_remaining.induct) (auto intro: subseq_Cons')

lemma click_remaining_length: "length (click_remaining x y es) \<le> length es"
  by (induction x y es rule: click_remaining.induct) auto

lemma click_remaining_misses:
  "filter (\<lambda>e. \<not> hit x y e) (click_remaining x y es) = filter (\<lambda>e. \<not> hit x y e) es"
  by (induction x y es rule: click_remaining.induct) auto

lemma hit_iff:
  "hit x y e \<longleftrightarrow> 0 < ent_r e \<and> (x - ent_x e)\<^sup>2 + (y - ent_y e)\<^sup>2 < (ent_r e)\<^sup>2"
proof (cases "0 < ent_r e")
  case True
  then have r: "sqrt ((ent_r e)\<^sup>2) = ent_r e" by simp
  have "hit x y e \<longleftrightarrow> sqrt ((x - ent_x e)\<^sup>2 + (y - ent_y e)\<^sup>2) < sqrt ((ent_r e)\<^sup>2)"
    unfolding hit_def r ..
  also have "\<dots> \<longleftrightarrow> (x - ent_x e)\<^sup>2 + (y - ent_y e)\<^sup>2 < (ent_r e)\<^sup>2"
    by (rule real_sqrt_less_iff)
  finally show ?thesis using True by simp
next
  case False
  have "0 \<le> sqrt ((x - ent_x e)\<^sup>2 + (y - ent_y e)\<^sup>2)" by simp
  with False show ?thesis unfolding hit_def by linarith
qed

declare hit_iff [code]

lemma set_splice1_update:
  "set (splice1 k (xs[k := v])) \<subseteq> set xs"
proof
  fix e assume "e \<in> set (splice1 k (xs[k := v]))"
  then have "e \<in> set (take k xs) \<or> e \<in> set (drop (Suc k) xs)"
    by (simp add: splice1_def)
  then show "e \<in> set xs" by (blast dest: in_set_takeD in_set_dropD)
qed

lemma update_forEach_alive:
  "\<forall>e \<in> set ents. 0 < ent_life e \<Longrightarrow> \<forall>e \<in> set (update_forEach sm k len ents). 0 < ent_life e"
proof (induction sm k len ents rule: update_forEach.induct)
  case (1 sm k len ents)
  let ?ent = "grow_decay sm (ents ! k)"
  let ?ents1 = "ents[k := ?ent]"
  consider (stop) "\<not> k < len"
    | (skip) "k < len" "\<not> k < length ents"
    | (dead) "k < len" "k < length ents" "ent_life ?ent \<le> 0"
    | (alive) "k < len" "k < length ents" "\<not> ent_life ?ent \<le> 0"
    by blast
  then show ?case
  proof cases
    case stop
    have "update_forEach sm k len ents = ents"
      using stop by (subst update_forEach.simps) simp
    then show ?thesis using "1.prems" by simp
  next
    case skip
    have eq: "update_forEach sm k len ents = update_forEach sm (Suc k) len ents"
      using skip by (subst update_forEach.simps) simp
    show ?thesis unfolding eq using skip "1.prems" by (rule "1.IH"(3))
  next
    case dead
    have eq: "update_forEach sm k len ents = update_forEach sm (Suc k) len (splice1 k ?ents1)"
      using dead by (subst update_forEach.simps) (simp add: Let_def)
    have "\<forall>e \<in> set (splice1 k ?ents1). 0 < ent_life e"
      using set_splice1_update[of k ents ?ent] "1.prems" by blast
    with dead show ?thesis unfolding eq by (intro "1.IH"(1)) simp_all
  next
    case alive
    have eq: "update_forEach sm k len ents = update_forEach sm (Suc k) len ?ents1"
      using alive by (subst update_forEach.simps) (simp add: Let_def)
    have "set ?ents1 \<subseteq> insert ?ent (set ents)" by (rule set_update_subset_insert)
    then have "\<forall>e \<in> set ?ents1. 0 < ent_life e" using alive(3) "1.prems" by auto
    with alive show ?thesis unfolding eq by (intro "1.IH"(2)) simp_all
  qed
qed

lemma handleClick_effect:
  assumes "c_isRunning st"
  shows "c_entities (handleClick x y st) = click_remaining x y (c_entities st)"
    and "c_score (handleClick x y st) =
           c_score st + 10 * (int (length (c_entities st)) - int (length (c_entities (handleClick x y st))))"
proof -
  have *: "c_entities (click_forEach x y 0 (length (c_entities st)) st) = [] @ click_remaining x y (c_entities st)
     \<and> c_score (click_forEach x y 0 (length (c_entities st)) st) =
         c_score st + 10 * (int (length (c_entities st)) - int (length (click_remaining x y (c_entities st))))"
    by (rule click_forEach_entities) simp_all
  show ents: "c_entities (handleClick x y st) = click_remaining x y (c_entities st)"
    using assms * by (simp add: handleClick_def)
  show "c_score (handleClick x y st) =
           c_score st + 10 * (int (length (c_entities st)) - int (length (c_entities (handleClick x y st))))"
    unfolding ents using assms * by (simp add: handleClick_def)
qed

lemma click_remaining_Cons:
  "click_remaining x y (e # es) =
     (if hit x y e then (case es of [] \<Rightarrow> [] | e' # es' \<Rightarrow> e' # click_remaining x y es')
      else e # click_remaining x y es)"
  by (cases es) simp_all

lemma click_remaining_first:
  "\<forall>a \<in> set as. \<not> hit x y a \<Longrightarrow> hit x y e \<Longrightarrow>
     \<exists>bs'. click_remaining x y (as @ e # bs) = as @ bs' \<and> subseq bs' bs"
proof (induction as)
  case Nil
  show ?case
  proof (cases bs)
    case Nil
    then show ?thesis using \<open>hit x y e\<close> by simp
  next
    case (Cons b bs'')
    have "subseq (b # click_remaining x y bs'') (b # bs'')"
      using click_remaining_subseq[of x y bs''] by simp
    then show ?thesis using Cons \<open>hit x y e\<close> by simp
  qed
next
  case (Cons a as)
  then obtain bs' where "click_remaining x y (as @ e # bs) = as @ bs'" "subseq bs' bs"
    by auto
  moreover have "click_remaining x y ((a # as) @ e # bs) = a # click_remaining x y (as @ e # bs)"
    using Cons.prems(1) by (simp add: click_remaining_Cons)
  ultimately show ?case by simp
qed

lemma subseq_set: "subseq xs ys \<Longrightarrow> set xs \<subseteq> set ys"
  by (auto elim: list_emb_set)

lemma click_set: "set (c_entities (handleClick x y st)) \<subseteq> set (c_entities st)"
proof (cases "c_isRunning st")
  case True
  show ?thesis
    unfolding handleClick_effect(1)[OF True] by (rule subseq_set) (rule click_remaining_subseq)
next
  case False
  then show ?thesis by (simp add: handleClick_def)
qed

lemmas clicker_eval =
  clicker_run_def clicker_initial_def clicker_render_def clicker_spawn_def clicker_spawnRate_def
  speedMultiplier_def pickAsset_def grow_decay_def update_forEach.simps click_forEach.simps
  handleClick_def hit_iff splice1_def Let_def

lemma overlap_state:
  "clicker_run (clicker_initial overlapConfig) overlapFrames =
     \<lparr> c_config = overlapConfig,
       c_entities =
         [\<lparr> ent_id = 0, ent_x = 100, ent_y = 100, ent_r = 16,
            ent_asset = Some (assets overlapConfig ! 0), ent_life = 92, ent_maxLife = 100 \<rparr>,
          \<lparr> ent_id = 1, ent_x = 300, ent_y = 300, ent_r = 14,
            ent_asset = Some (assets overlapConfig ! 0), ent_life = 93, ent_maxLife = 100 \<rparr>,
          \<lparr> ent_id = 2, ent_x = 110, ent_y = 100, ent_r = 12,
            ent_asset = Some (assets overlapConfig ! 0), ent_life = 94, ent_maxLife = 100 \<rparr>],
       c_lastSpawn = 1803, c_isRunning = True, c_score = 0, c_spawnId = 3, c_shownScore = 0,
       c_timeLeft = 30, c_timerActive = True, c_calls = [] \<rparr>"
  by (simp add: overlapFrames_def overlapConfig_def fallbackConfig_def clicker_eval)

lemma render_score [simp]: "c_score (clicker_render w h d t st) = c_score st"
  by (simp add: clicker_render_def clicker_spawn_def Let_def)

lemma render_alive:
  assumes "\<forall>e \<in> set (c_entities st). 0 < ent_life e"
  shows "\<forall>e \<in> set (c_entities (clicker_render w h d t st)). 0 < ent_life e"
proof (cases "c_isRunning st")
  case False
  then show ?thesis using assms by (simp add: clicker_render_def)
next
  case True
  let ?st1 = "clicker_spawn w h d t st"
  have "\<forall>e \<in> set (c_entities ?st1). 0 < ent_life e"
    using assms by (auto simp: clicker_spawn_def Let_def)
  then have "\<forall>e \<in> set (update_forEach (speedMultiplier (c_config ?st1)) 0
       (length (c_entities ?st1)) (c_entities ?st1)). 0 < ent_life e"
    by (rule update_forEach_alive)
  then show ?thesis using True by (simp add: clicker_render_def Let_def)
qed

lemma step_alive:
  assumes "\<forall>e \<in> set (c_entities st). 0 < ent_life e"
  shows "\<forall>e \<in> set (c_entities (clicker_step st ev)). 0 < ent_life e"
proof (cases ev)
  case (ClickerFrame w h d t)
  then show ?thesis using render_alive[OF assms] by simp
next
  case (Tap x y)
  then show ?thesis using click_set[of x y st] assms by auto
next
  case Tick
  then show ?thesis using assms by (simp add: clicker_tick_def)
qed

lemma run_alive:
  "\<forall>e \<in> set (c_entities st). 0 < ent_life e \<Longrightarrow>
     \<forall>e \<in> set (c_entities (clicker_run st evs)). 0 < ent_life e"
  unfolding clicker_run_def
proof (induction evs arbitrary: st)
  case Nil
  then show ?case by simp
next
  case (Cons ev evs)
  from step_alive[OF Cons.prems, of ev] show ?case by (simp add: Cons.IH)
qed

text \<open>
  C5 (amended). A tap on the running Clicker visits the live targets in order and removes only
  targets whose centre is at Euclidean distance less than their current radius from the
  pointer: the first such target in iteration order is always removed, every removed target
  adds exactly 10 points (the score grows by 10 times the number of targets removed, which
  can be more than one when targets overlap), and no target that the pointer misses is
  removed. A frame never changes the score, and no target whose life has reached 0 is left
  after any frame or event.
\<close>
theorem clicker_tap_and_decay:
  "(c_isRunning st \<longrightarrow>
      subseq (c_entities (handleClick x y st)) (c_entities st)
    \<and> filter (\<lambda>e. \<not> hit x y e) (c_entities (handleClick x y st)) =
        filter (\<lambda>e. \<not> hit x y e) (c_entities st)
    \<and> c_score (handleClick x y st) =
        c_score st + 10 * (int (length (c_entities st)) - int (length (c_entities (handleClick x y st))))
    \<and> (\<forall>as e bs. c_entities st = as @ e # bs \<and> (\<forall>a \<in> set as. \<not> hit x y a) \<and> hit x y e \<longrightarrow>
          (\<exists>bs'. c_entities (handleClick x y st) = as @ bs' \<and> subseq bs' bs)))
   \<and> c_score (clicker_render w h d t st) = c_score st
   \<and> (\<forall>e \<in> set (c_entities (clicker_run (clicker_initial config) evs)). 0 < ent_life e)"
proof -
  have tap: "subseq (c_entities (handleClick x y st)) (c_entities st)
    \<and> filter (\<lambda>e. \<not> hit x y e) (c_entities (handleClick x y st)) =
        filter (\<lambda>e. \<not> hit x y e) (c_entities st)
    \<and> c_score (handleClick x y st) =
        c_score st + 10 * (int (length (c_entities st)) - int (length (c_entities (handleClick x y st))))
    \<and> (\<forall>as e bs. c_entities st = as @ e # bs \<and> (\<forall>a \<in> set as. \<not> hit x y a) \<and> hit x y e \<longrightarrow>
          (\<exists>bs'. c_entities (handleClick x y st) = as @ bs' \<and> subseq bs' bs))"
    if run: "c_isRunning st"
  proof -
    note ents = handleClick_effect(1)[OF run, of x y]
    have 1: "subseq (c_entities (handleClick x y st)) (c_entities st)"
      unfolding ents by (rule click_remaining_subseq)
    have 2: "filter (\<lambda>e. \<not> hit x y e) (c_entities (handleClick x y st)) =
        filter (\<lambda>e. \<not> hit x y e) (c_entities st)"
      unfolding ents by (rule click_remaining_misses)
    have 4: "\<exists>bs'. c_entities (handleClick x y st) = as @ bs' \<and> subseq bs' bs"
      if "c_entities st = as @ e # bs" "\<forall>a \<in> set as. \<not> hit x y a" "hit x y e" for as e bs
      unfolding ents that(1) using that(2,3) by (rule click_remaining_first)
    from 1 2 handleClick_effect(2)[OF run, of x y] 4 show ?thesis by blast
  qed
  have "\<forall>e \<in> set (c_entities (clicker_initial config)). 0 < ent_life e"
    by (simp add: clicker_initial_def)
  then have alive: "\<forall>e \<in> set (c_entities (clicker_run (clicker_initial config) evs)). 0 < ent_life e"
    by (rule run_alive)
  have score: "c_score (clicker_render w h d t st) = c_score st" by simp
  show ?thesis
  proof (intro conjI)
    show "c_isRunning st \<longrightarrow>
      subseq (c_entities (handleClick x y st)) (c_entities st)
    \<and> filter (\<lambda>e. \<not> hit x y e) (c_entities (handleClick x y st)) =
        filter (\<lambda>e. \<not> hit x y e) (c_entities st)
    \<and> c_score (handleClick x y st) =
        c_score st + 10 * (int (length (c_entities st)) - int (length (c_entities (handleClick x y st))))
    \<and> (\<forall>as e bs. c_entities st = as @ e # bs \<and> (\<forall>a \<in> set as. \<not> hit x y a) \<and> hit x y e \<longrightarrow>
          (\<exists>bs'. c_entities (handleClick x y st) = as @ bs' \<and> subseq bs' bs))"
      using tap by (rule impI)
    show "c_score (clicker_render w h d t st) = c_score st" by (rule score)
    show "\<forall>e \<in> set (c_entities (clicker_run (clicker_initial config) evs)). 0 < ent_life e"
      by (rule alive)
  qed
qed

theorem clicker_tap_removes_two_counterexample:
  "length (c_entities (clicker_run (clicker_initial overlapConfig) overlapFrames)) = 3
   \<and> c_score (clicker_run (clicker_initial overlapConfig) overlapFrames) = 0
   \<and> length (c_entities (clicker_step (clicker_run (clicker_initial overlapConfig) overlapFrames)
        (Tap 100 100))) = 1
   \<and> c_score (clicker_step (clicker_run (clicker_initial overlapConfig) overlapFrames)
        (Tap 100 100)) = 20"
  unfolding overlap_state by (simp add: click_forEach.simps handleClick_def hit_iff splice1_def)

theorem clicker_tap_and_decay_witness:
  "c_isRunning (clicker_run (clicker_initial overlapConfig) overlapFrames)
   \<and> c_entities (clicker_run (clicker_initial overlapConfig) overlapFrames) =
       [] @ hd (c_entities (clicker_run (clicker_initial overlapConfig) overlapFrames))
          # tl (c_entities (clicker_run (clicker_initial overlapConfig) overlapFrames))
   \<and> hit 100 100 (hd (c_entities (clicker_run (clicker_initial overlapConfig) overlapFrames)))
   \<and> c_score (handleClick 100 100 (clicker_run (clicker_initial overlapConfig) overlapFrames)) =
       c_score (clicker_run (clicker_initial overlapConfig) overlapFrames)
       + 10 * (int (length (c_entities (clicker_run (clicker_initial overlapConfig) overlapFrames)))
               - int (length (c_entities (handleClick 100 100
                        (clicker_run (clicker_initial overlapConfig) overlapFrames)))))
   \<and> hd (c_entities (clicker_run (clicker_initial overlapConfig) overlapFrames))
       \<in> set (c_entities (clicker_run (clicker_initial overlapConfig) overlapFrames))
   \<and> 0 < ent_life (hd (c_entities (clicker_run (clicker_initial overlapConfig) overlapFrames)))"
  using clicker_tap_and_decay[of "clicker_run (clicker_initial overlapConfig) overlapFrames"
      100 100 660 660 "\<lparr> cd_radius = 0, cd_x = 0, cd_y = 0, cd_asset = 0 \<rparr>" 1900
      overlapConfig overlapFrames]
  unfolding overlap_state by (simp add: hit_iff)

subsection \<open>Catcher: the end of a session\<close>

lemma shrink_speed [simp]: "speed (parameters shrinkConfig) = 10"
  by (simp add: shrinkConfig_def)

lemmas catcher_eval =
  catcher_run_def catcher_initial_def catcher_render_def constrainPlayer_def catcher_spawn_def
  catcher_spawnRate_def catcher_item_def splice1_def Let_def

lemma spawn_phase:
  "catcher_run (catcher_initial shrinkConfig 600) spawnFrames =
     fallingState [fallingItem 0 (- 11), fallingItem 1 (- 35 / 2), fallingItem 2 (- 24),
       fallingItem 3 (- 61 / 2), fallingItem 4 (- 37), fallingItem 5 (- 87 / 2)]"
  by (simp add: spawnFrames_def shrinkDraws_def fallingState_def fallingItem_def catcher_eval)

lemma fall_phase:
  "catcher_run (fallingState [fallingItem 0 (- 11), fallingItem 1 (- 35 / 2), fallingItem 2 (- 24),
       fallingItem 3 (- 61 / 2), fallingItem 4 (- 37), fallingItem 5 (- 87 / 2)]) fallFrames =
     fallingState [fallingItem 0 28, fallingItem 1 (43 / 2), fallingItem 2 15,
       fallingItem 3 (17 / 2), fallingItem 4 2, fallingItem 5 (- 9 / 2)]"
  by (simp add: fallFrames_def shrinkDraws_def fallingState_def fallingItem_def catcher_eval)

lemma catcher_run_append: "catcher_run st (evs @ evs') = catcher_run (catcher_run st evs) evs'"
  by (simp add: catcher_run_def)

text \<open>
  C1 (the code departs from it). A session of the Catcher that starts from the mounted state
  with five lives: items are spawned and fall, the window is made smaller, and in the next
  frame all six items are below the bottom edge. The loop over the items goes on after the
  fifth miss has ended the game, so \<open>onGameOver\<close> is called a second time for the sixth.
\<close>
theorem catcher_reports_game_over_twice:
  "k_lives (catcher_run (catcher_initial shrinkConfig 600) (spawnFrames @ fallFrames @ [Resize 600])) = 5
   \<and> k_calls (catcher_run (catcher_initial shrinkConfig 600) (spawnFrames @ fallFrames @ [Resize 600])) = []
   \<and> k_calls (catcher_run (catcher_initial shrinkConfig 600) shrinkFrames) = [0, 0]
   \<and> k_lives (catcher_run (catcher_initial shrinkConfig 600) shrinkFrames) = - 1"
  unfolding shrinkFrames_def catcher_run_append spawn_phase fall_phase
  by (simp add: shrinkDraws_def fallingState_def fallingItem_def catcher_eval)

lemma catcher_loop_in_range:
  "i < length (k_items st) \<Longrightarrow> i \<le> length (k_items (catcher_item height i st))"
  by (auto simp: catcher_item_def splice1_def Let_def)

lemma catcher_item_caught:
  assumes "i < length (k_items st)"
    and "it_y (k_items st ! i) + it_speed (k_items st ! i) > height - 50"
    and "it_y (k_items st ! i) + it_speed (k_items st ! i) < height"
    and "it_x (k_items st ! i) > k_playerX st - 50"
    and "it_x (k_items st ! i) < k_playerX st + 50"
  shows "k_score (catcher_item height i st) = k_score st + 1
       \<and> k_items (catcher_item height i st) = splice1 i (k_items st)
       \<and> k_lives (catcher_item height i st) = k_lives st
       \<and> k_calls (catcher_item height i st) = k_calls st"
  using assms by (simp add: catcher_item_def splice1_def Let_def)

lemma catcher_item_missed:
  assumes "i < length (k_items st)"
    and "it_y (k_items st ! i) + it_speed (k_items st ! i) > height"
  shows "k_lives (catcher_item height i st) = k_lives st - 1
       \<and> k_items (catcher_item height i st) = splice1 i (k_items st)
       \<and> k_score (catcher_item height i st) = k_score st
       \<and> k_calls (catcher_item height i st) =
           (if k_lives st - 1 \<le> 0 then k_calls st @ [k_score st] else k_calls st)"
  using assms by (simp add: catcher_item_def splice1_def Let_def)

text \<open>
  C2 (the code departs from it). One frame of the Catcher with one life left and two items that
  both cross the bottom edge in it: each miss takes one life, and \<open>onGameOver\<close> is called
  with the current score once when the lives reach 0 and once more when they reach -1.
\<close>
theorem catcher_last_life_two_misses:
  "k_lives lastLifeState = 1
   \<and> k_calls lastLifeState = []
   \<and> k_calls (catcher_render 600 500 shrinkDraws 9016 lastLifeState) = [3, 3]
   \<and> k_lives (catcher_render 600 500 shrinkDraws 9016 lastLifeState) = - 1
   \<and> k_items (catcher_render 600 500 shrinkDraws 9016 lastLifeState) = []"
  by (simp add: lastLifeState_def shrinkDraws_def catcher_eval)

subsection \<open>Spawn cadence and configuration generation\<close>

lemma spawn_catcher_item [simp]:
  "k_lastSpawn (catcher_item height i st) = k_lastSpawn st"
  "k_spawnId (catcher_item height i st) = k_spawnId st"
  by (simp_all add: catcher_item_def Let_def)

lemma spawn_catcher_loop [simp]:
  "k_lastSpawn (catcher_loop height n st) = k_lastSpawn st"
  "k_spawnId (catcher_loop height n st) = k_spawnId st"
  by (induction n arbitrary: st) simp_all

lemma config_catcher_item [simp]: "k_config (catcher_item height i st) = k_config st"
  by (simp add: catcher_item_def Let_def)

lemma config_catcher_loop [simp]: "k_config (catcher_loop height n st) = k_config st"
  by (induction n arbitrary: st) simp_all

lemma clicker_render_spawn:
  assumes "c_isRunning st"
  shows "c_lastSpawn (clicker_render w h d t st) =
           (if t - c_lastSpawn st > clicker_spawnRate (c_config st) then t else c_lastSpawn st)"
    and "c_spawnId (clicker_render w h d t st) =
           (if t - c_lastSpawn st > clicker_spawnRate (c_config st) then Suc (c_spawnId st) else c_spawnId st)"
    and "c_isRunning (clicker_render w h d t st)"
    and "c_config (clicker_render w h d t st) = c_config st"
  using assms by (simp_all add: clicker_render_def clicker_spawn_def Let_def)

lemma catcher_render_spawn:
  assumes "k_isRunning st"
  shows "k_lastSpawn (catcher_render w h d t st) =
           (if t - k_lastSpawn st > catcher_spawnRate (k_config st) then t else k_lastSpawn st)"
    and "k_spawnId (catcher_render w h d t st) =
           (if t - k_lastSpawn st > catcher_spawnRate (k_config st) then Suc (k_spawnId st) else k_spawnId st)"
    and "k_config (catcher_render w h d t st) = k_config st"
  using assms by (simp_all add: catcher_render_def catcher_spawn_def constrainPlayer_def Let_def)

lemma spawn_rates:
  "clicker_spawnRate config = max 200 (1000 - 80 * speed (parameters config))"
  "catcher_spawnRate config = max 300 (1500 - 100 * speed (parameters config))"
  by (simp_all add: clicker_spawnRate_def catcher_spawnRate_def mult.commute)

text \<open>
  C4. For a speed between 1 and 10: a frame of the running Clicker spawns a target exactly
  when more than \<open>max(200, 1000 - 80 * speed)\<close> milliseconds lie between the time of the
  frame and the time of the last spawn, and the spawn makes the time of the frame the time of
  the last spawn; so after a spawn at time \<open>t\<close> the next frame, at time \<open>t'\<close>, spawns
  exactly when \<open>t' - t\<close> exceeds that interval. The same holds of the Catcher with
  \<open>max(300, 1500 - 100 * speed)\<close>.
\<close>
theorem spawn_intervals:
  assumes "1 \<le> speed (parameters config)" and "speed (parameters config) \<le> 10"
  shows "clicker_spawnRate config = max 200 (1000 - 80 * speed (parameters config))
       \<and> catcher_spawnRate config = max 300 (1500 - 100 * speed (parameters config))
       \<and> 200 \<le> clicker_spawnRate config \<and> clicker_spawnRate config \<le> 920
       \<and> 500 \<le> catcher_spawnRate config \<and> catcher_spawnRate config \<le> 1400
       \<and> ((length (c_entities (clicker_spawn w h cd t (cst\<lparr> c_config := config \<rparr>)))
              = Suc (length (c_entities cst)))
            = (t - c_lastSpawn cst > max 200 (1000 - 80 * speed (parameters config))))
       \<and> ((length (k_items (catcher_spawn w kd t (kst\<lparr> k_config := config \<rparr>)))
              = Suc (length (k_items kst)))
            = (t - k_lastSpawn kst > max 300 (1500 - 100 * speed (parameters config))))
       \<and> c_lastSpawn (clicker_render w h cd t (cst\<lparr> c_config := config, c_isRunning := True \<rparr>)) =
            (if t - c_lastSpawn cst > max 200 (1000 - 80 * speed (parameters config))
             then t else c_lastSpawn cst)
       \<and> c_spawnId (clicker_render w h cd t (cst\<lparr> c_config := config, c_isRunning := True \<rparr>)) =
            (if t - c_lastSpawn cst > max 200 (1000 - 80 * speed (parameters config))
             then Suc (c_spawnId cst) else c_spawnId cst)
       \<and> k_lastSpawn (catcher_render w h kd t (kst\<lparr> k_config := config, k_isRunning := True \<rparr>)) =
            (if t - k_lastSpawn kst > max 300 (1500 - 100 * speed (parameters config))
             then t else k_lastSpawn kst)
       \<and> k_spawnId (catcher_render w h kd t (kst\<lparr> k_config := config, k_isRunning := True \<rparr>)) =
            (if t - k_lastSpawn kst > max 300 (1500 - 100 * speed (parameters config))
             then Suc (k_spawnId kst) else k_spawnId kst)
       \<and> (t - c_lastSpawn cst > max 200 (1000 - 80 * speed (parameters config)) \<longrightarrow>
            (c_spawnId (clicker_render w' h' cd' t'
                 (clicker_render w h cd t (cst\<lparr> c_config := config, c_isRunning := True \<rparr>)))
               = Suc (Suc (c_spawnId cst)))
            = (t' - t > max 200 (1000 - 80 * speed (parameters config))))
       \<and> (t - k_lastSpawn kst > max 300 (1500 - 100 * speed (parameters config)) \<and>
            k_isRunning (catcher_render w h kd t (kst\<lparr> k_config := config, k_isRunning := True \<rparr>)) \<longrightarrow>
            (k_spawnId (catcher_render w' h' kd' t'
                 (catcher_render w h kd t (kst\<lparr> k_config := config, k_isRunning := True \<rparr>)))
               = Suc (Suc (k_spawnId kst)))
            = (t' - t > max 300 (1500 - 100 * speed (parameters config))))"
proof -
  let ?cst = "cst\<lparr> c_config := config, c_isRunning := True \<rparr>"
  let ?kst = "kst\<lparr> k_config := config, k_isRunning := True \<rparr>"
  let ?cr = "max 200 (1000 - 80 * speed (parameters config))"
  let ?kr = "max 300 (1500 - 100 * speed (parameters config))"
  note rates = spawn_rates[of config]
  have bounds: "200 \<le> clicker_spawnRate config \<and> clicker_spawnRate config \<le> 920
       \<and> 500 \<le> catcher_spawnRate config \<and> catcher_spawnRate config \<le> 1400"
    unfolding rates using assms by auto
  have guard_c: "(length (c_entities (clicker_spawn w h cd t (cst\<lparr> c_config := config \<rparr>)))
              = Suc (length (c_entities cst))) = (t - c_lastSpawn cst > ?cr)"
    by (simp add: clicker_spawn_def rates Let_def)
  have guard_k: "(length (k_items (catcher_spawn w kd t (kst\<lparr> k_config := config \<rparr>)))
              = Suc (length (k_items kst))) = (t - k_lastSpawn kst > ?kr)"
    by (simp add: catcher_spawn_def rates Let_def)
  have run_c: "c_isRunning ?cst" and run_k: "k_isRunning ?kst" by simp_all
  have last_c: "c_lastSpawn (clicker_render w h cd t ?cst) = (if t - c_lastSpawn cst > ?cr then t else c_lastSpawn cst)"
    using clicker_render_spawn(1)[OF run_c, of w h cd t] by (simp add: rates)
  have id_c: "c_spawnId (clicker_render w h cd t ?cst) = (if t - c_lastSpawn cst > ?cr then Suc (c_spawnId cst) else c_spawnId cst)"
    using clicker_render_spawn(2)[OF run_c, of w h cd t] by (simp add: rates)
  have last_k: "k_lastSpawn (catcher_render w h kd t ?kst) = (if t - k_lastSpawn kst > ?kr then t else k_lastSpawn kst)"
    using catcher_render_spawn(1)[OF run_k, of w h kd t] by (simp add: rates)
  have id_k: "k_spawnId (catcher_render w h kd t ?kst) = (if t - k_lastSpawn kst > ?kr then Suc (k_spawnId kst) else k_spawnId kst)"
    using catcher_render_spawn(2)[OF run_k, of w h kd t] by (simp add: rates)
  have two_c: "(c_spawnId (clicker_render w' h' cd' t' (clicker_render w h cd t ?cst)) = Suc (Suc (c_spawnId cst)))
            = (t' - t > ?cr)" if "t - c_lastSpawn cst > ?cr"
  proof -
    let ?st1 = "clicker_render w h cd t ?cst"
    have r1: "c_isRunning ?st1" using run_c by (rule clicker_render_spawn(3))
    have c1: "c_config ?st1 = config" using clicker_render_spawn(4)[OF run_c, of w h cd t] by simp
    from clicker_render_spawn(2)[OF r1, of w' h' cd' t'] last_c id_c that c1
    show ?thesis by (simp add: rates)
  qed
  have two_k: "(k_spawnId (catcher_render w' h' kd' t' (catcher_render w h kd t ?kst)) = Suc (Suc (k_spawnId kst)))
            = (t' - t > ?kr)"
    if "t - k_lastSpawn kst > ?kr \<and> k_isRunning (catcher_render w h kd t ?kst)"
  proof -
    let ?st1 = "catcher_render w h kd t ?kst"
    have r1: "k_isRunning ?st1" using that by simp
    have c1: "k_config ?st1 = config" using catcher_render_spawn(3)[OF run_k, of w h kd t] by simp
    from catcher_render_spawn(2)[OF r1, of w' h' kd' t'] last_k id_k that c1
    show ?thesis by (simp add: rates)
  qed
  show ?thesis
    using rates bounds guard_c guard_k last_c id_c last_k id_k two_c two_k
    by (intro conjI impI) (simp_all only:)
qed


theorem spawn_intervals_witness:
  "1 \<le> speed (parameters fallbackConfig) \<and> speed (parameters fallbackConfig) \<le> 10
   \<and> clicker_spawnRate fallbackConfig = 600 \<and> catcher_spawnRate fallbackConfig = 1000
   \<and> 601 - c_lastSpawn (clicker_initial fallbackConfig) > 600
   \<and> c_lastSpawn (clicker_render 660 660 \<lparr> cd_radius = 0, cd_x = 0, cd_y = 0, cd_asset = 0 \<rparr> 601
        (clicker_initial fallbackConfig)) = 601
   \<and> c_spawnId (clicker_render 660 660 \<lparr> cd_radius = 0, cd_x = 0, cd_y = 0, cd_asset = 0 \<rparr> 1202
        (clicker_render 660 660 \<lparr> cd_radius = 0, cd_x = 0, cd_y = 0, cd_asset = 0 \<rparr> 601
          (clicker_initial fallbackConfig))) = 2
   \<and> c_spawnId (clicker_render 660 660 \<lparr> cd_radius = 0, cd_x = 0, cd_y = 0, cd_asset = 0 \<rparr> 1201
        (clicker_render 660 660 \<lparr> cd_radius = 0, cd_x = 0, cd_y = 0, cd_asset = 0 \<rparr> 601
          (clicker_initial fallbackConfig))) = 1
   \<and> 1001 - k_lastSpawn (catcher_initial fallbackConfig 660) > 1000
   \<and> k_isRunning (catcher_render 660 660 \<lparr> kd_x = 0, kd_speed = 0, kd_asset = 0 \<rparr> 1001
        (catcher_initial fallbackConfig 660))
   \<and> k_lastSpawn (catcher_render 660 660 \<lparr> kd_x = 0, kd_speed = 0, kd_asset = 0 \<rparr> 1001
        (catcher_initial fallbackConfig 660)) = 1001
   \<and> k_spawnId (catcher_render 660 660 \<lparr> kd_x = 0, kd_speed = 0, kd_asset = 0 \<rparr> 2002
        (catcher_render 660 660 \<lparr> kd_x = 0, kd_speed = 0, kd_asset = 0 \<rparr> 1001
          (catcher_initial fallbackConfig 660))) = 2
   \<and> k_spawnId (catcher_render 660 660 \<lparr> kd_x = 0, kd_speed = 0, kd_asset = 0 \<rparr> 2001
        (catcher_render 660 660 \<lparr> kd_x = 0, kd_speed = 0, kd_asset = 0 \<rparr> 1001
          (catcher_initial fallbackConfig 660))) = 1"
proof -
  have speed: "1 \<le> speed (parameters fallbackConfig)" "speed (parameters fallbackConfig) \<le> 10"
    by (simp_all add: fallbackConfig_def)
  have cst: "(clicker_initial fallbackConfig)\<lparr> c_config := fallbackConfig, c_isRunning := True \<rparr>
       = clicker_initial fallbackConfig"
    by (simp add: clicker_initial_def)
  have kst: "(catcher_initial fallbackConfig 660)\<lparr> k_config := fallbackConfig, k_isRunning := True \<rparr>
       = catcher_initial fallbackConfig 660"
    by (simp add: catcher_initial_def)
  have five: "speed (parameters fallbackConfig) = 5" by (simp add: fallbackConfig_def)
  have init: "c_lastSpawn (clicker_initial fallbackConfig) = 0" "c_spawnId (clicker_initial fallbackConfig) = 0"
    "k_lastSpawn (catcher_initial fallbackConfig 660) = 0" "k_spawnId (catcher_initial fallbackConfig 660) = 0"
    by (simp_all add: clicker_initial_def catcher_initial_def)
  have running: "k_isRunning (catcher_render 660 660 \<lparr> kd_x = 0, kd_speed = 0, kd_asset = 0 \<rparr> 1001
        (catcher_initial fallbackConfig 660))"
    by (simp add: catcher_render_def catcher_initial_def constrainPlayer_def catcher_spawn_def
        catcher_spawnRate_def five catcher_item_def splice1_def Let_def)
  note a = spawn_intervals[OF speed, of 660 660 "\<lparr> cd_radius = 0, cd_x = 0, cd_y = 0, cd_asset = 0 \<rparr>" 601
      "clicker_initial fallbackConfig" "\<lparr> kd_x = 0, kd_speed = 0, kd_asset = 0 \<rparr>"
      "catcher_initial fallbackConfig 660" 660 660 "\<lparr> cd_radius = 0, cd_x = 0, cd_y = 0, cd_asset = 0 \<rparr>" 1202
      "\<lparr> kd_x = 0, kd_speed = 0, kd_asset = 0 \<rparr>", unfolded cst kst five init]
  note c = spawn_intervals[OF speed, of 660 660 "\<lparr> cd_radius = 0, cd_x = 0, cd_y = 0, cd_asset = 0 \<rparr>" 1001
      "clicker_initial fallbackConfig" "\<lparr> kd_x = 0, kd_speed = 0, kd_asset = 0 \<rparr>"
      "catcher_initial fallbackConfig 660" 660 660 "\<lparr> cd_radius = 0, cd_x = 0, cd_y = 0, cd_asset = 0 \<rparr>" 2002
      "\<lparr> kd_x = 0, kd_speed = 0, kd_asset = 0 \<rparr>", unfolded cst kst five init]
  have one_c: "c_spawnId (clicker_render 660 660 \<lparr> cd_radius = 0, cd_x = 0, cd_y = 0, cd_asset = 0 \<rparr> 1201
        (clicker_render 660 660 \<lparr> cd_radius = 0, cd_x = 0, cd_y = 0, cd_asset = 0 \<rparr> 601
          (clicker_initial fallbackConfig))) = 1"
    by (simp add: clicker_render_def clicker_spawn_def clicker_spawnRate_def clicker_initial_def five
        Let_def)
  have one_k: "k_spawnId (catcher_render 660 660 \<lparr> kd_x = 0, kd_speed = 0, kd_asset = 0 \<rparr> 2001
        (catcher_render 660 660 \<lparr> kd_x = 0, kd_speed = 0, kd_asset = 0 \<rparr> 1001
          (catcher_initial fallbackConfig 660))) = 1"
    by (simp add: catcher_render_def catcher_spawn_def catcher_spawnRate_def catcher_initial_def
        constrainPlayer_def five Let_def)
  show ?thesis
    using speed a c running one_c one_k by (simp add: init)
qed

lemma strings_of_json_map [simp]: "strings_of_json (map JString xs) = Some xs"
  by (induction xs) simp_all

lemma gameType_roundtrip [simp]: "gameType_of_json (json_of_gameType g) = Some g"
  by (cases g) simp_all

lemma config_roundtrip: "config_of_json (json_of_config c) = Some c"
  by (simp add: config_of_json_def json_of_config_def theme_of_json_def parameters_of_json_def)

text \<open>
  C8 (amended). When the generation call throws, or its response has no text or an empty text,
  or the text does not parse, \<open>generateGameForMood\<close> resolves to the fixed fallback
  configuration (a clicker with the fixed palette, five assets, speed 5 and difficulty 5). For
  every mood it resolves and never rejects: to the fallback, or to the value that the response
  text parses to, which it returns as it is, whatever its shape.
\<close>
theorem generation_falls_back:
  "(generateContent mood = Threw \<or> generateContent mood = Responded None
      \<or> generateContent mood = Responded (Some [])
      \<or> (\<exists>txt. generateContent mood = Responded (Some txt) \<and> JSON_parse txt = None)
     \<longrightarrow> generateGameForMood generateContent JSON_parse mood = Inr (json_of_config fallbackConfig))
   \<and> (\<forall>txt v. generateContent mood = Responded (Some txt) \<and> txt \<noteq> [] \<and> JSON_parse txt = Some v
     \<longrightarrow> generateGameForMood generateContent JSON_parse mood = Inr v)
   \<and> (\<exists>v. generateGameForMood generateContent JSON_parse mood = Inr v)
   \<and> config_of_json (json_of_config fallbackConfig) = Some fallbackConfig
   \<and> gameType fallbackConfig = clicker
   \<and> theme fallbackConfig =
        \<lparr> primary = ''#3B82F6'', secondary = ''#60A5FA'', background = ''#EFF6FF'',
          text_color = ''#1E3A8A'', accent = ''#2563EB'' \<rparr>
   \<and> length (assets fallbackConfig) = 5
   \<and> speed (parameters fallbackConfig) = 5
   \<and> difficulty (parameters fallbackConfig) = 5"
proof -
  have fallback: "generateGameForMood generateContent JSON_parse mood = Inr (json_of_config fallbackConfig)"
    if "generateContent mood = Threw \<or> generateContent mood = Responded None
      \<or> generateContent mood = Responded (Some [])
      \<or> (\<exists>txt. generateContent mood = Responded (Some txt) \<and> JSON_parse txt = None)"
    using that by (auto simp: generateGameForMood_def tryGenerate_def)
  have passed_on: "generateGameForMood generateContent JSON_parse mood = Inr v"
    if "generateContent mood = Responded (Some body) \<and> body \<noteq> [] \<and> JSON_parse body = Some v" for body v
    using that by (simp add: generateGameForMood_def tryGenerate_def)
  have total: "\<exists>v. generateGameForMood generateContent JSON_parse mood = Inr v"
    by (simp add: generateGameForMood_def split: sum.splits)
  have fields: "gameType fallbackConfig = clicker
   \<and> theme fallbackConfig =
        \<lparr> primary = ''#3B82F6'', secondary = ''#60A5FA'', background = ''#EFF6FF'',
          text_color = ''#1E3A8A'', accent = ''#2563EB'' \<rparr>
   \<and> length (assets fallbackConfig) = 5
   \<and> speed (parameters fallbackConfig) = 5
   \<and> difficulty (parameters fallbackConfig) = 5"
    by (simp add: fallbackConfig_def)
  from fallback passed_on total config_roundtrip[of fallbackConfig] fields show ?thesis by blast
qed

theorem generation_returns_unchecked_value_counterexample:
  "generateGameForMood (\<lambda>mood. Responded (Some ''42'')) parse_example ''Angry'' = Inr (JNumber 42)
   \<and> config_of_json (JNumber 42) = None
   \<and> generateGameForMood (\<lambda>mood. Responded (Some ''{}'')) parse_example ''Angry'' = Inr (JObject [])
   \<and> config_of_json (JObject []) = None"
  by (simp add: generateGameForMood_def tryGenerate_def parse_example_def config_of_json_def)

theorem generation_falls_back_witness:
  "generateGameForMood (\<lambda>mood. Threw) parse_example ''Angry'' = Inr (json_of_config fallbackConfig)
   \<and> generateGameForMood (\<lambda>mood. Responded (Some ''not json'')) parse_example ''Angry''
       = Inr (json_of_config fallbackConfig)
   \<and> generateGameForMood (\<lambda>mood. Responded None) parse_example ''Angry''
       = Inr (json_of_config fallbackConfig)
   \<and> parse_example ''null'' = Some JNull
   \<and> generateGameForMood (\<lambda>mood. Responded (Some ''null'')) parse_example ''Angry'' = Inr JNull"
  using generation_falls_back[of "\<lambda>mood. Threw" "''Angry''" parse_example]
    generation_falls_back[of "\<lambda>mood. Responded (Some ''not json'')" "''Angry''" parse_example]
    generation_falls_back[of "\<lambda>mood. Responded None" "''Angry''" parse_example]
    generation_falls_back[of "\<lambda>mood. Responded (Some ''null'')" "''Angry''" parse_example]
  by (simp add: parse_example_def)

subsection \<open>The configuration is only read\<close>

lemma config_click_forEach [simp]: "c_config (click_forEach x y k len st) = c_config st"
proof (induction x y k len st rule: click_forEach.induct)
  case (1 x y k len st)
  consider (stop) "\<not> k < len"
    | (skip) "k < len" "\<not> k < length (c_entities st)"
    | (hit) "k < len" "k < length (c_entities st)" "hit x y (c_entities st ! k)"
    | (miss) "k < len" "k < length (c_entities st)" "\<not> hit x y (c_entities st ! k)"
    by blast
  then show ?case
  proof cases
    case stop
    then show ?thesis by (subst click_forEach.simps) simp
  next
    case skip
    then show ?thesis using "1.IH"(3) by (subst click_forEach.simps) simp
  next
    case hit
    then show ?thesis using "1.IH"(1) by (subst click_forEach.simps) simp
  next
    case miss
    then show ?thesis using "1.IH"(2) by (subst click_forEach.simps) simp
  qed
qed

lemma config_clicker_step [simp]: "c_config (clicker_step st ev) = c_config st"
  by (cases ev)
     (simp_all add: clicker_render_def clicker_spawn_def handleClick_def clicker_tick_def Let_def)

lemma config_clicker_run: "c_config (clicker_run st evs) = c_config st"
  unfolding clicker_run_def by (induction evs arbitrary: st) simp_all

lemma config_catcher_step [simp]: "k_config (catcher_step st ev) = k_config st"
  by (cases ev)
     (simp_all add: catcher_render_def catcher_spawn_def constrainPlayer_def Let_def)

lemma config_catcher_run: "k_config (catcher_run st evs) = k_config st"
  unfolding catcher_run_def by (induction evs arbitrary: st) simp_all

lemma config_gameOverCheck [simp]: "m_config (gameOverCheck st) = m_config st"
  by (simp add: gameOverCheck_def Let_def)

lemma config_checkMatch [simp]: "m_config (checkMatch st) = m_config st"
  by (simp add: checkMatch_def clearFlipBack_def Let_def)

lemma config_memory_step [simp]: "m_config (memory_step st ev) = m_config st"
proof (cases ev)
  case (CardClick ident)
  then show ?thesis by (simp add: handleCardClick_def)
next
  case (TimeoutFires k)
  show ?thesis
  proof (cases "k < length (m_timers st)")
    case True
    obtain d cb where "m_timers st ! k = (d, cb)" by (cases "m_timers st ! k")
    then show ?thesis using TimeoutFires True by (cases cb) simp_all
  next
    case False
    then show ?thesis using TimeoutFires by simp
  qed
qed

lemma config_memory_run: "m_config (memory_run st evs) = m_config st"
  unfolding memory_run_def by (induction evs arbitrary: st) simp_all

lemma initialize_store_frame:
  assumes "a < length store"
  shows "fst (initialize_store rs a store) ! a = store ! a"
    and "fst (initialize_store rs a store) ! snd (initialize_store rs a store) =
           sort_random rs (take 8 (store ! a) @ take 8 (store ! a))"
    and "snd (initialize_store rs a store) \<noteq> a"
  using assms
  by (simp_all add: initialize_store_def store_slice_def store_spread2_def store_sort_def
      nth_append Let_def)

text \<open>
  C9. Whatever frames, taps, ticks, pointer moves, resizes, card clicks and timeouts a session
  sees, the configuration that the mini-game received is the one it still has afterwards; and
  the one array operation that writes in place, the shuffle of the Memory deck, writes to a
  fresh array and leaves the array of assets as it was.
\<close>
theorem config_is_read_only:
  "c_config (clicker_run (clicker_initial config) clickerEvents) = config
   \<and> k_config (catcher_run (catcher_initial config width) catcherEvents) = config
   \<and> m_config (memory_run (memory_mount rs config) memoryEvents) = config
   \<and> (assetsAddr < length store \<longrightarrow>
        fst (initialize_store rs assetsAddr store) ! assetsAddr = store ! assetsAddr
      \<and> (store ! assetsAddr = assets config \<longrightarrow>
           fst (initialize_store rs assetsAddr store) ! snd (initialize_store rs assetsAddr store)
             = map card_content (buildDeck rs config)))"
  using initialize_store_frame[of assetsAddr store rs]
  by (simp add: config_clicker_run config_catcher_run config_memory_run clicker_initial_def
      catcher_initial_def mount_simp memory_initial_def deck_contents)

theorem config_is_read_only_witness:
  "0 < length [assets twoPairConfig]
   \<and> [assets twoPairConfig] ! 0 = assets twoPairConfig
   \<and> fst (initialize_store [1] 0 [assets twoPairConfig]) =
        [[''x'', ''y''], [''x'', ''y''], [''y'', ''x'', ''x'', ''y'']]
   \<and> map card_content (buildDeck [1] twoPairConfig) = [''y'', ''x'', ''x'', ''y'']
   \<and> m_config (memory_run (memory_mount [1] twoPairConfig) [CardClick 0, CardClick 1]) = twoPairConfig"
  using config_is_read_only[of twoPairConfig "[]" 600 "[]" "[1]" "[CardClick 0, CardClick 1]" 0
      "[assets twoPairConfig]"]
  by (simp add: twoPairConfig_def initialize_store_def store_slice_def store_spread2_def
      store_sort_def deck_contents splice1_def Let_def)

subsection \<open>Clicker and Memory report at most once\<close>

lemma click_forEach_frame:
  "\<exists>s sh es. click_forEach x y k len st = st\<lparr> c_score := s, c_shownScore := sh, c_entities := es \<rparr>"
proof (induction x y k len st rule: click_forEach.induct)
  case (1 x y k len st)
  have same: "st = st\<lparr> c_score := c_score st, c_shownScore := c_shownScore st, c_entities := c_entities st \<rparr>"
    by simp
  consider (stop) "\<not> k < len"
    | (skip) "k < len" "\<not> k < length (c_entities st)"
    | (hit) "k < len" "k < length (c_entities st)" "hit x y (c_entities st ! k)"
    | (miss) "k < len" "k < length (c_entities st)" "\<not> hit x y (c_entities st ! k)"
    by blast
  then show ?case
  proof cases
    case stop
    then have "click_forEach x y k len st = st" by (subst click_forEach.simps) simp
    with same show ?thesis by metis
  next
    case skip
    then have "click_forEach x y k len st = click_forEach x y (Suc k) len st"
      by (subst click_forEach.simps) simp
    with "1.IH"(3)[OF skip] show ?thesis by simp
  next
    case hit
    let ?st' = "st\<lparr> c_score := c_score st + 10, c_shownScore := c_score st + 10,
                    c_entities := splice1 k (c_entities st) \<rparr>"
    from hit have "click_forEach x y k len st = click_forEach x y (Suc k) len ?st'"
      by (subst click_forEach.simps) simp
    moreover from "1.IH"(1)[OF hit] obtain s sh es where
      "click_forEach x y (Suc k) len ?st' = ?st'\<lparr> c_score := s, c_shownScore := sh, c_entities := es \<rparr>"
      by blast
    ultimately have "click_forEach x y k len st = st\<lparr> c_score := s, c_shownScore := sh, c_entities := es \<rparr>"
      by simp
    then show ?thesis by blast
  next
    case miss
    then have "click_forEach x y k len st = click_forEach x y (Suc k) len st"
      by (subst click_forEach.simps) simp
    with "1.IH"(2)[OF miss] show ?thesis by simp
  qed
qed

lemma handleClick_frame:
  "c_calls (handleClick x y st) = c_calls st \<and> c_timerActive (handleClick x y st) = c_timerActive st
   \<and> c_score st \<le> c_score (handleClick x y st)"
proof (cases "c_isRunning st")
  case False
  then show ?thesis by (simp add: handleClick_def)
next
  case True
  obtain s sh es where
    "click_forEach x y 0 (length (c_entities st)) st = st\<lparr> c_score := s, c_shownScore := sh, c_entities := es \<rparr>"
    using click_forEach_frame by blast
  then have "c_calls (handleClick x y st) = c_calls st" "c_timerActive (handleClick x y st) = c_timerActive st"
    using True by (simp_all add: handleClick_def)
  moreover have "c_score st \<le> c_score (handleClick x y st)"
    using handleClick_effect[OF True, of x y] click_remaining_length[of x y "c_entities st"] by simp
  ultimately show ?thesis by simp
qed

lemma clicker_inv_step: "clicker_inv st \<Longrightarrow> clicker_inv (clicker_step st ev)"
proof (cases ev)
  case (ClickerFrame w h d t)
  assume "clicker_inv st"
  then show ?thesis using ClickerFrame
    by (simp add: clicker_inv_def clicker_render_def clicker_spawn_def Let_def)
next
  case (Tap x y)
  assume "clicker_inv st"
  then show ?thesis using Tap handleClick_frame[of x y st] by (simp add: clicker_inv_def)
next
  case Tick
  assume "clicker_inv st"
  then show ?thesis using Tick by (auto simp: clicker_inv_def clicker_tick_def)
qed

lemma clicker_reports_once:
  "length (c_calls (clicker_run (clicker_initial config) evs)) \<le> 1
   \<and> list_all (\<lambda>s. 0 \<le> s) (c_calls (clicker_run (clicker_initial config) evs))"
proof -
  have "clicker_inv st \<Longrightarrow> clicker_inv (foldl clicker_step st evs)" for st
    by (induction evs arbitrary: st) (simp_all add: clicker_inv_step)
  moreover have "clicker_inv (clicker_initial config)"
    by (simp add: clicker_inv_def clicker_initial_def)
  ultimately have "clicker_inv (clicker_run (clicker_initial config) evs)"
    by (simp add: clicker_run_def)
  then show ?thesis by (simp add: clicker_inv_def)
qed

lemma memory_reports_once:
  assumes "list_all (clickable (length (buildDeck rs config))) evs"
  shows "length (m_calls (memory_run (memory_mount rs config) evs)) \<le> 1
       \<and> list_all (\<lambda>s. 0 \<le> s) (m_calls (memory_run (memory_mount rs config) evs))"
proof -
  let ?st = "memory_run (memory_mount rs config) evs"
  have "memory_inv ?st" using assms by (rule reachable_inv)
  then have rep: "mset (pending_reports (m_timers ?st)) + mset (m_calls ?st) =
        (if m_cards ?st \<noteq> [] \<and> 2 * m_matches ?st = length (m_cards ?st)
         then {# max 0 (1000 - 20 * int (m_moves ?st)) #} else {#})"
    by (simp add: memory_inv_def)
  show ?thesis
  proof (cases "m_cards ?st \<noteq> [] \<and> 2 * m_matches ?st = length (m_cards ?st)")
    case True
    with rep have "mset (pending_reports (m_timers ?st)) + mset (m_calls ?st) =
        {# max 0 (1000 - 20 * int (m_moves ?st)) #}" by simp
    from one_report[OF this] show ?thesis by auto
  next
    case False
    with rep have "m_calls ?st = []" by simp
    then show ?thesis by simp
  qed
qed

end
